theory Spec2Isabelle
  imports Main "HOL-Library.Word"
begin

section \<open>Loreline_StringData: the reference-counted buffer\<close>

text \<open>
  The bridge allocates every string buffer with \<^verbatim>\<open>malloc\<close> and gives it back with
  \<^verbatim>\<open>free\<close>. The heap below holds the live buffers by address, the next address
  \<^verbatim>\<open>malloc\<close> hands out, and the list of addresses passed to \<^verbatim>\<open>free\<close> so far.
  The count is a \<^verbatim>\<open>std::atomic<int>\<close>: 32 bits, and \<^verbatim>\<open>fetch_add\<close> and
  \<^verbatim>\<open>fetch_sub\<close> wrap around. Touching a buffer that was freed is undefined in C++;
  the model reports it as the fault \<open>UseAfterFree\<close>.
\<close>

type_synonym addr = nat

record Loreline_StringData =
  refCount :: "32 word"
  len :: nat
  data :: string

record heap =
  cells :: "addr \<rightharpoonup> Loreline_StringData"
  brk :: addr
  freed :: "addr list"

datatype fault = UseAfterFree

definition NUL :: char where
  "NUL = CHR 0x00"

definition strlen :: "string \<Rightarrow> nat" where
  "strlen s = length (takeWhile (\<lambda>c. c \<noteq> NUL) s)"

text \<open>
  A \<^verbatim>\<open>const char*\<close> argument is \<open>None\<close> for \<^verbatim>\<open>nullptr\<close> and otherwise the
  bytes it points to. \<^verbatim>\<open>memcpy\<close> copies the first \<open>n\<close> of them; every caller in the
  bridge passes the length of the bytes it owns.
\<close>

definition linc_createStringData :: "string option \<Rightarrow> nat \<Rightarrow> heap \<Rightarrow> addr option \<times> heap" where
  "linc_createStringData s n h =
     (case s of
        None \<Rightarrow> (None, h)
      | Some bytes \<Rightarrow>
          (let d = brk h
           in (Some d,
               h\<lparr>cells := (cells h)(d \<mapsto> \<lparr>refCount = 1, len = n, data = take n bytes @ [NUL]\<rparr>),
                 brk := Suc d\<rparr>)))"

definition free :: "addr \<Rightarrow> heap \<Rightarrow> heap" where
  "free a h = h\<lparr>cells := (cells h)(a := None), freed := freed h @ [a]\<rparr>"

definition linc_retainStringData :: "addr option \<Rightarrow> heap \<Rightarrow> fault + heap" where
  "linc_retainStringData d h =
     (case d of
        None \<Rightarrow> Inr h
      | Some a \<Rightarrow>
          (case cells h a of
             None \<Rightarrow> Inl UseAfterFree
           | Some c \<Rightarrow> Inr (h\<lparr>cells := (cells h)(a \<mapsto> c\<lparr>refCount := refCount c + 1\<rparr>)\<rparr>)))"

definition linc_releaseStringData :: "addr option \<Rightarrow> heap \<Rightarrow> fault + heap" where
  "linc_releaseStringData d h =
     (case d of
        None \<Rightarrow> Inr h
      | Some a \<Rightarrow>
          (case cells h a of
             None \<Rightarrow> Inl UseAfterFree
           | Some c \<Rightarrow>
               (if refCount c = 1
                then Inr (free a h)
                else Inr (h\<lparr>cells := (cells h)(a \<mapsto> c\<lparr>refCount := refCount c - 1\<rparr>)\<rparr>))))"

section \<open>Loreline_String\<close>

text \<open>A \<^verbatim>\<open>Loreline_String\<close> object is its one field, \<^verbatim>\<open>ptr\<close>.\<close>

type_synonym Loreline_String = "addr option"

definition String_null :: Loreline_String where
  "String_null = None"

definition String_cstr :: "string option \<Rightarrow> heap \<Rightarrow> Loreline_String \<times> heap" where
  "String_cstr s h =
     (case s of None \<Rightarrow> (None, h) | Some bytes \<Rightarrow> linc_createStringData s (strlen bytes) h)"

definition String_bytes :: "string option \<Rightarrow> nat \<Rightarrow> heap \<Rightarrow> Loreline_String \<times> heap" where
  "String_bytes s n h =
     (case s of None \<Rightarrow> (None, h) | Some bytes \<Rightarrow> linc_createStringData s n h)"

text \<open>The copy constructor: the new object, and the heap after the retain.\<close>

definition String_copy :: "Loreline_String \<Rightarrow> heap \<Rightarrow> fault + (Loreline_String \<times> heap)" where
  "String_copy p h =
     (case linc_retainStringData p h of Inl e \<Rightarrow> Inl e | Inr h' \<Rightarrow> Inr (p, h'))"

text \<open>The move constructor: the new object and what is left in the source.\<close>

definition String_move :: "Loreline_String \<Rightarrow> Loreline_String \<times> Loreline_String" where
  "String_move p = (p, None)"

definition String_destroy :: "Loreline_String \<Rightarrow> heap \<Rightarrow> fault + heap" where
  "String_destroy p h = linc_releaseStringData p h"

text \<open>
  The assignments compare the addresses of the two objects; \<open>same\<close> says that
  \<^verbatim>\<open>this == &o\<close>. They return the new \<^verbatim>\<open>ptr\<close> of the target (and of the source,
  for the move) with the heap.
\<close>

definition String_assign_copy ::
  "bool \<Rightarrow> Loreline_String \<Rightarrow> Loreline_String \<Rightarrow> heap \<Rightarrow> fault + (Loreline_String \<times> heap)" where
  "String_assign_copy same this p h =
     (if same then Inr (this, h)
      else (case linc_retainStringData p h of
              Inl e \<Rightarrow> Inl e
            | Inr h1 \<Rightarrow>
                (case linc_releaseStringData this h1 of
                   Inl e \<Rightarrow> Inl e
                 | Inr h2 \<Rightarrow> Inr (p, h2))))"

definition String_assign_move ::
  "bool \<Rightarrow> Loreline_String \<Rightarrow> Loreline_String \<Rightarrow> heap
     \<Rightarrow> fault + (Loreline_String \<times> Loreline_String \<times> heap)" where
  "String_assign_move same this p h =
     (if same then Inr (this, p, h)
      else (case linc_releaseStringData this h of
              Inl e \<Rightarrow> Inl e
            | Inr h1 \<Rightarrow> Inr (p, None, h1)))"

definition c_str :: "Loreline_String \<Rightarrow> heap \<Rightarrow> fault + string option" where
  "c_str p h =
     (case p of
        None \<Rightarrow> Inr None
      | Some a \<Rightarrow> (case cells h a of None \<Rightarrow> Inl UseAfterFree | Some c \<Rightarrow> Inr (Some (data c))))"

definition String_length :: "Loreline_String \<Rightarrow> heap \<Rightarrow> fault + nat" where
  "String_length p h =
     (case p of
        None \<Rightarrow> Inr 0
      | Some a \<Rightarrow> (case cells h a of None \<Rightarrow> Inl UseAfterFree | Some c \<Rightarrow> Inr (len c)))"

definition isNull :: "Loreline_String \<Rightarrow> bool" where
  "isNull p = (p = None)"

definition String_bool :: "Loreline_String \<Rightarrow> bool" where
  "String_bool p = (p \<noteq> None)"

text \<open>\<open>N\<close> copy constructions from one string, and the destruction of a list of strings.\<close>

fun copy_n :: "nat \<Rightarrow> Loreline_String \<Rightarrow> heap \<Rightarrow> fault + (Loreline_String list \<times> heap)" where
  "copy_n 0 p h = Inr ([], h)"
| "copy_n (Suc n) p h =
     (case String_copy p h of
        Inl e \<Rightarrow> Inl e
      | Inr (q, h1) \<Rightarrow>
          (case copy_n n p h1 of
             Inl e \<Rightarrow> Inl e
           | Inr (qs, h2) \<Rightarrow> Inr (q # qs, h2)))"

fun destroy_all :: "Loreline_String list \<Rightarrow> heap \<Rightarrow> fault + heap" where
  "destroy_all [] h = Inr h"
| "destroy_all (p # ps) h =
     (case String_destroy p h of Inl e \<Rightarrow> Inl e | Inr h1 \<Rightarrow> destroy_all ps h1)"

text \<open>
  The life cycle of the spec's test: build a string from bytes, copy it \<open>N\<close> times, destroy
  all \<open>N + 1\<close> objects.
\<close>

definition lifecycle :: "string \<Rightarrow> nat \<Rightarrow> heap \<Rightarrow> fault + heap" where
  "lifecycle bytes N h =
     (case String_cstr (Some bytes) h of
        (p, h1) \<Rightarrow>
          (case copy_n N p h1 of
             Inl e \<Rightarrow> Inl e
           | Inr (ps, h2) \<Rightarrow> destroy_all (p # ps) h2))"

definition heap0 :: heap where
  "heap0 = \<lparr>cells = Map.empty, brk = 0, freed = []\<rparr>"

section \<open>The bridge: values that cross it\<close>

text \<open>
  Threads, engine objects (\<^verbatim>\<open>hx::Object*\<close> that is not null), handles (the addresses
  \<^verbatim>\<open>new\<close> returns), host function pointers and host \<^verbatim>\<open>void*\<close> data are
  numbers. A pointer that may be null is an \<open>option\<close>. A \<^verbatim>\<open>Loreline_String\<close> that
  travels by value is written as its content: \<open>None\<close> for the null string, the bytes
  otherwise; the counting behind it is the first section's. A \<^verbatim>\<open>double\<close> is carried
  and never computed with.
\<close>

type_synonym tid = nat
type_synonym hxobj = nat
type_synonym handle = nat
type_synonym fnptr = nat
type_synonym userdata = nat

typedecl double

datatype hxval =
    HxNull
  | HxBool bool
  | HxInt int
  | HxFloat double
  | HxString string
  | HxObject hxobj

datatype exn =
    Wrong_thread
  | Haxe_throw hxval
  | Dangling_handle

text \<open>
  \<open>Wrong_thread\<close> is the \<^verbatim>\<open>std::runtime_error\<close> of \<^verbatim>\<open>linc_Loreline_ensureHaxeThread\<close>,
  \<open>Haxe_throw\<close> a \<^verbatim>\<open>::Dynamic\<close> thrown by the engine, \<open>Dangling_handle\<close> the use of a
  handle after its release (undefined in C++). A function of the bridge returns \<open>Inl\<close> of
  one of them when it leaves its caller with that exception; on the worker thread, where
  nothing catches it, that ends the process.
\<close>

section \<open>The state of the bridge and its scheduler\<close>

text \<open>
  The worker's queue holds closures. \<open>Plain t\<close> is a task pushed by \<^verbatim>\<open>schedule\<close>;
  \<open>Wrapped t k\<close> is the \<^verbatim>\<open>wrappedTask\<close> of \<^verbatim>\<open>scheduleSync\<close>, which runs \<open>t\<close> and
  then sets its \<^verbatim>\<open>completed\<close> flag, the shared bool number \<open>k\<close>.
\<close>

datatype 't queued = Plain 't | Wrapped 't nat

record 't Loreline_Thread =
  workerThread :: tid
  taskQueue :: "'t queued list"
  stopFlag :: bool

record Loreline_Interpreter =
  obj :: "hxobj option"
  pendingCb :: "hxobj option"
  dialogueHandler :: "fnptr option"
  choiceHandler :: "fnptr option"
  finishHandler :: "fnptr option"
  userData :: "userdata option"

text \<open>
  Modelled from the spec: \<^verbatim>\<open>hx::GCAddRoot\<close> and \<^verbatim>\<open>hx::GCRemoveRoot\<close> belong to the
  hxcpp runtime, which is not among the sources; the spec has them register and deregister
  a root, so the registered roots are a set. A root is the address of a field of a handle.
\<close>

datatype root =
    Script_obj handle
  | Interpreter_obj handle
  | Interpreter_pendingCb handle
  | Translations_obj handle

datatype Loreline_Value =
    Value_null
  | Value_int int
  | Value_float double
  | Value_bool bool
  | Value_string "string option"

record Loreline_TextTag =
  tag_value :: "string option"
  tag_offset :: int
  tag_closing :: bool

record Loreline_ChoiceOption =
  opt_text :: "string option"
  opt_tags :: "Loreline_TextTag list option"
  opt_tagCount :: nat
  opt_enabled :: bool

text \<open>What a synchronous call hands back through the local it captured by reference.\<close>

datatype retval =
    Ret_none
  | Ret_handle "handle option"
  | Ret_string "string option"
  | Ret_value Loreline_Value

text \<open>The calls the bridge makes into the engine, and the calls it makes to the host.\<close>

datatype engine_call =
    Eng_hxRunLibrary
  | Eng_InternalCollect
  | Eng_parse hxval hxval bool
  | Eng_extractTranslations hxval
  | Eng_play hxval handle hxval "hxobj option"
  | Eng_Json_parse hxval
  | Eng_resume hxval handle hxval hxval "hxobj option"
  | Eng_start hxval hxval
  | Eng_save hxval
  | Eng_Json_stringify hxval
  | Eng_restore hxval hxval
  | Eng_interp_resume hxval
  | Eng_getCharacterField hxval string string
  | Eng_setCharacterField hxval string string hxval
  | Eng_print hxval
  | Eng_run hxobj
  | Eng_run_index hxobj int

datatype host_call =
    Host_dialogue fnptr handle "string option" "string option"
      "Loreline_TextTag list option" nat "userdata option"
  | Host_choice fnptr handle "Loreline_ChoiceOption list option" nat "userdata option"
  | Host_finish fnptr handle "userdata option"

text \<open>
  The static state of the bridge (the source's names with \<^verbatim>\<open>linc_Loreline_\<close> taken off),
  the handles that are alive, the registered roots, the shared \<^verbatim>\<open>completed\<close> flags that
  are set, the threads the bridge has started and not joined, and two records of what has
  crossed the bridge: the engine calls and the host handler calls made so far.
  \<open>haxeThreadId\<close> is \<open>None\<close> while it holds the default \<^verbatim>\<open>std::thread::id\<close>.
\<close>

record ('t, 'f) bridge =
  didCallHaxeMain :: bool
  useInternalThread :: bool
  haxeThreadId :: "tid option"
  thread :: "'t Loreline_Thread option"
  dispatchOutFunctions :: "'f list"
  s_dispatchInterp :: "handle option"
  scripts :: "handle \<rightharpoonup> hxobj option"
  interpreters :: "handle \<rightharpoonup> Loreline_Interpreter"
  translation_handles :: "handle \<rightharpoonup> hxobj option"
  next_handle :: handle
  roots :: "root set"
  completed :: "nat set"
  next_sync :: nat
  live_threads :: "tid set"
  result :: retval
  engine_trace :: "engine_call list"
  host_trace :: "host_call list"

type_synonym ('t, 'f) runner = "tid \<Rightarrow> 't \<Rightarrow> ('t, 'f) bridge \<Rightarrow> exn + ('t, 'f) bridge"

type_synonym ('t, 'f) out_runner = "tid \<Rightarrow> 'f \<Rightarrow> ('t, 'f) bridge \<Rightarrow> exn + ('t, 'f) bridge"

subsection \<open>Loreline_Thread\<close>

text \<open>
  The constructor starts the worker on a new thread; \<open>w\<close> is the \<^verbatim>\<open>std::thread::id\<close>
  the system gives it. The system is free to give an id again once the thread that had it
  has been joined.
\<close>

definition Thread_new ::
  "tid \<Rightarrow> ('t, 'f) bridge \<Rightarrow> 't Loreline_Thread \<times> ('t, 'f) bridge" where
  "Thread_new w s =
     (\<lparr>workerThread = w, taskQueue = [], stopFlag = False\<rparr>,
      s\<lparr>live_threads := insert w (live_threads s)\<rparr>)"

definition Thread_schedule :: "'t \<Rightarrow> 't Loreline_Thread \<Rightarrow> 't Loreline_Thread" where
  "Thread_schedule task th = th\<lparr>taskQueue := taskQueue th @ [Plain task]\<rparr>"

text \<open>What the worker does with one closure of its queue.\<close>

fun run_queued ::
  "('t, 'f) runner \<Rightarrow> tid \<Rightarrow> 't queued \<Rightarrow> ('t, 'f) bridge \<Rightarrow> exn + ('t, 'f) bridge" where
  "run_queued run w (Plain task) s = run w task s"
| "run_queued run w (Wrapped task k) s =
     (case run w task s of
        Inl e \<Rightarrow> Inl e
      | Inr s1 \<Rightarrow> Inr (s1\<lparr>completed := insert k (completed s1)\<rparr>))"

text \<open>
  One turn of the \<^verbatim>\<open>while (true)\<close> of \<^verbatim>\<open>threadLoop\<close>: the worker waits while the
  queue is empty and the stop flag is down, leaves the loop when the flag is up and the queue
  is empty, and otherwise takes the front closure and runs it.
\<close>

datatype 's turn = Waits | Leaves | Ran 's

definition threadLoop_turn :: "('t, 'f) runner \<Rightarrow> ('t, 'f) bridge \<Rightarrow> (exn + ('t, 'f) bridge) turn" where
  "threadLoop_turn run s =
     (case thread s of
        None \<Rightarrow> Leaves
      | Some th \<Rightarrow>
          (if taskQueue th = [] \<and> \<not> stopFlag th then Waits
           else if stopFlag th \<and> taskQueue th = [] then Leaves
           else Ran (run_queued run (workerThread th) (hd (taskQueue th))
                       (s\<lparr>thread := Some (th\<lparr>taskQueue := tl (taskQueue th)\<rparr>)\<rparr>))))"

text \<open>
  \<^verbatim>\<open>threadLoop\<close> from a given state on, with no other thread at work: \<open>None\<close> when the
  worker ends up waiting for ever, otherwise the state in which it left the loop, or the
  exception that ended it.
\<close>

partial_function (option) threadLoop ::
  "('t, 'f) runner \<Rightarrow> ('t, 'f) bridge \<Rightarrow> (exn + ('t, 'f) bridge) option" where
  "threadLoop run s =
     (case threadLoop_turn run s of
        Waits \<Rightarrow> None
      | Leaves \<Rightarrow> Some (Inr s)
      | Ran (Inl e) \<Rightarrow> Some (Inl e)
      | Ran (Inr s1) \<Rightarrow> threadLoop run s1)"

text \<open>
  The destructor raises the stop flag, wakes the worker and joins it: the caller goes on
  when \<^verbatim>\<open>threadLoop\<close> has returned. The thread is then gone.
\<close>

definition Thread_delete :: "('t, 'f) runner \<Rightarrow> ('t, 'f) bridge \<Rightarrow> (exn + ('t, 'f) bridge) option" where
  "Thread_delete run s =
     (case thread s of
        None \<Rightarrow> Some (Inr s)
      | Some th \<Rightarrow>
          (case threadLoop run (s\<lparr>thread := Some (th\<lparr>stopFlag := True\<rparr>)\<rparr>) of
             None \<Rightarrow> None
           | Some (Inl e) \<Rightarrow> Some (Inl e)
           | Some (Inr s1) \<Rightarrow>
               Some (Inr (s1\<lparr>live_threads := live_threads s1 - {workerThread th}\<rparr>))))"

text \<open>
  The caller of \<^verbatim>\<open>scheduleSync\<close> sleeps until its flag is set. With no other thread at
  work, what happens meanwhile is the worker's turns.
\<close>

partial_function (option) await ::
  "('t, 'f) runner \<Rightarrow> nat \<Rightarrow> ('t, 'f) bridge \<Rightarrow> (exn + ('t, 'f) bridge) option" where
  "await run k s =
     (if k \<in> completed s then Some (Inr s)
      else (case threadLoop_turn run s of
              Waits \<Rightarrow> None
            | Leaves \<Rightarrow> None
            | Ran (Inl e) \<Rightarrow> Some (Inl e)
            | Ran (Inr s1) \<Rightarrow> await run k s1))"

text \<open>
  \<^verbatim>\<open>scheduleSync\<close> makes a fresh flag, pushes the wrapped task and waits for the flag. A
  task that calls it on the worker thread itself waits for a closure only that thread could
  run: it waits for ever.
\<close>

definition Thread_scheduleSync ::
  "('t, 'f) runner \<Rightarrow> tid \<Rightarrow> 't \<Rightarrow> ('t, 'f) bridge \<Rightarrow> (exn + ('t, 'f) bridge) option" where
  "Thread_scheduleSync run caller task s =
     (case thread s of
        None \<Rightarrow> Some (Inl Dangling_handle)
      | Some th \<Rightarrow>
          (let k = next_sync s;
               s1 = s\<lparr>next_sync := Suc k,
                      completed := completed s - {k},
                      thread := Some (th\<lparr>taskQueue := taskQueue th @ [Wrapped task k]\<rparr>)\<rparr>
           in if caller = workerThread th then None else await run k s1))"

subsection \<open>Loreline_FunctionQueue\<close>

definition add :: "'f \<Rightarrow> ('t, 'f) bridge \<Rightarrow> ('t, 'f) bridge" where
  "add func s = s\<lparr>dispatchOutFunctions := dispatchOutFunctions s @ [func]\<rparr>"

text \<open>The \<^verbatim>\<open>for\<close> loop of \<^verbatim>\<open>flush\<close> over the saved callbacks.\<close>

fun run_saved ::
  "('t, 'f) out_runner \<Rightarrow> tid \<Rightarrow> 'f list \<Rightarrow> ('t, 'f) bridge \<Rightarrow> exn + ('t, 'f) bridge" where
  "run_saved run caller [] s = Inr s"
| "run_saved run caller (func # tempQueue) s =
     (case run caller func s of
        Inl e \<Rightarrow> Inl e
      | Inr s1 \<Rightarrow> run_saved run caller tempQueue s1)"

definition flush :: "('t, 'f) out_runner \<Rightarrow> tid \<Rightarrow> ('t, 'f) bridge \<Rightarrow> exn + ('t, 'f) bridge" where
  "flush run caller s =
     (if dispatchOutFunctions s = [] then Inr s
      else (let tempQueue = dispatchOutFunctions s
            in run_saved run caller tempQueue (s\<lparr>dispatchOutFunctions := []\<rparr>)))"

subsection \<open>schedule, scheduleSync, dispatchOut\<close>

definition linc_Loreline_schedule ::
  "('t, 'f) runner \<Rightarrow> tid \<Rightarrow> 't \<Rightarrow> ('t, 'f) bridge \<Rightarrow> exn + ('t, 'f) bridge" where
  "linc_Loreline_schedule run caller task s =
     (if useInternalThread s \<and> thread s \<noteq> None
      then Inr (s\<lparr>thread := map_option (Thread_schedule task) (thread s)\<rparr>)
      else run caller task s)"

definition linc_Loreline_scheduleSync ::
  "('t, 'f) runner \<Rightarrow> tid \<Rightarrow> 't \<Rightarrow> ('t, 'f) bridge \<Rightarrow> (exn + ('t, 'f) bridge) option" where
  "linc_Loreline_scheduleSync run caller task s =
     (if useInternalThread s \<and> thread s \<noteq> None
      then Thread_scheduleSync run caller task s
      else Some (run caller task s))"

definition linc_Loreline_dispatchOut ::
  "('t, 'f) out_runner \<Rightarrow> tid \<Rightarrow> 'f \<Rightarrow> ('t, 'f) bridge \<Rightarrow> exn + ('t, 'f) bridge" where
  "linc_Loreline_dispatchOut run caller task s =
     (if useInternalThread s then Inr (add task s) else run caller task s)"

subsection \<open>Loreline_createThread\<close>

text \<open>\<open>w\<close> is the id of the thread the system starts, if the call starts one.\<close>

definition Loreline_createThread :: "tid \<Rightarrow> ('t, 'f) bridge \<Rightarrow> ('t, 'f) bridge" where
  "Loreline_createThread w s =
     (if useInternalThread s then s
      else (case Thread_new w (s\<lparr>useInternalThread := True\<rparr>) of
              (th, s1) \<Rightarrow> s1\<lparr>thread := Some th\<rparr>))"

section \<open>The closures of the bridge\<close>

text \<open>
  A C++ lambda is its code and the values it captured. \<open>task\<close> has one constructor for
  each body between \<^verbatim>\<open>LORELINE_BEGIN_CALL\<close> (or \<^verbatim>\<open>LORELINE_BEGIN_CALL_SYNC\<close>) and
  \<^verbatim>\<open>LORELINE_END_CALL\<close>, \<open>func\<close> one for each body between
  \<^verbatim>\<open>LORELINE_BEGIN_DISPATCH_OUT\<close> and \<^verbatim>\<open>LORELINE_END_DISPATCH_OUT\<close>; the arguments
  are the captured values. \<^verbatim>\<open>Loreline_update\<close> adds floating-point time and is left out.
\<close>

datatype task =
    T_init
  | T_dispose
  | T_gc
  | T_advance hxobj
  | T_select hxobj int
  | T_parse "string option" "string option" "fnptr option" "userdata option"
  | T_extractTranslations handle
  | T_releaseTranslations handle
  | T_play handle hxval hxval "hxobj option"
  | T_resume handle hxval hxval hxval "hxobj option"
  | T_start handle hxval
  | T_save handle
  | T_restore handle hxval
  | T_getCharacterField handle string string
  | T_setCharacterField handle string string Loreline_Value
  | T_printScript handle
  | T_releaseScript handle
  | T_releaseInterpreter handle

datatype func =
    Out_dialogue handle "string option" "string option" "Loreline_TextTag list option" nat
  | Out_choice handle "Loreline_ChoiceOption list option" nat
  | Out_finish handle

type_synonym state = "(task, func) bridge"

definition bridge0 :: "('t, 'f) bridge" where
  "bridge0 =
     \<lparr>didCallHaxeMain = False, useInternalThread = False, haxeThreadId = None, thread = None,
      dispatchOutFunctions = [], s_dispatchInterp = None, scripts = Map.empty,
      interpreters = Map.empty, translation_handles = Map.empty, next_handle = 0, roots = {},
      completed = {}, next_sync = 0, live_threads = {}, result = Ret_none,
      engine_trace = [], host_trace = []\<rparr>"

subsection \<open>The engine\<close>

text \<open>
  The engine is not part of the bridge. It answers a call by returning a value or throwing
  one, after having called some of the closures the bridge gave it. What it answers may
  depend on all the calls it has received before.
\<close>

record hx_tag =
  hx_value :: "string option"
  hx_offset :: int
  hx_closing :: bool

record hx_option =
  hx_text :: "string option"
  hx_enabled :: bool
  hx_tags :: "hx_tag list option"

text \<open>
  A call of a closure names the handle the closure captured. An argument the closure only
  uses through \<^verbatim>\<open>GetPtr\<close> is given as that pointer.
\<close>

datatype event =
    Fire_dialogue handle "hxobj option" "string option" "string option"
      "hx_tag list option" "hxobj option"
  | Fire_choice handle "hxobj option" "hx_option list option" "hxobj option"
  | Fire_finish handle "hxobj option"

datatype outcome = Returns hxval | Throws hxval

datatype reply = Reply (fired: "event list") (outcome: outcome)

type_synonym engine = "engine_call list \<Rightarrow> engine_call \<Rightarrow> reply"

subsection \<open>Conversion helpers\<close>

definition linc_hxToString :: "string option \<Rightarrow> string option" where
  "linc_hxToString s =
     (case s of None \<Rightarrow> None | Some cstr \<Rightarrow> Some (take (strlen cstr) cstr))"

definition linc_toHxString :: "string option \<Rightarrow> hxval" where
  "linc_toHxString s =
     (case s of None \<Rightarrow> HxNull | Some cstr \<Rightarrow> HxString (take (strlen cstr) cstr))"

definition IsNull :: "hxval \<Rightarrow> bool" where
  "IsNull v = (v = HxNull)"

definition GetPtr :: "hxval \<Rightarrow> hxobj option" where
  "GetPtr v = (case v of HxObject ob \<Rightarrow> Some ob | _ \<Rightarrow> None)"

definition Dynamic :: "hxobj option \<Rightarrow> hxval" where
  "Dynamic p = (case p of None \<Rightarrow> HxNull | Some ob \<Rightarrow> HxObject ob)"

definition hx_String :: "hxval \<Rightarrow> string option" where
  "hx_String v = (case v of HxString cstr \<Rightarrow> Some cstr | _ \<Rightarrow> None)"

definition null_val :: Loreline_Value where
  "null_val = Value_null"

definition linc_hxToValue :: "hxval \<Rightarrow> Loreline_Value" where
  "linc_hxToValue val =
     (case val of
        HxNull \<Rightarrow> null_val
      | HxBool b \<Rightarrow> Value_bool b
      | HxInt i \<Rightarrow> Value_int i
      | HxFloat f \<Rightarrow> Value_float f
      | HxString cstr \<Rightarrow> Value_string (Some (take (strlen cstr) cstr))
      | HxObject ob \<Rightarrow> null_val)"

definition linc_valueToHx :: "Loreline_Value \<Rightarrow> hxval" where
  "linc_valueToHx v =
     (case v of
        Value_int i \<Rightarrow> HxInt i
      | Value_float f \<Rightarrow> HxFloat f
      | Value_bool b \<Rightarrow> HxBool b
      | Value_string str \<Rightarrow>
          (case str of None \<Rightarrow> HxNull | Some cstr \<Rightarrow> HxString (take (strlen cstr) cstr))
      | Value_null \<Rightarrow> HxNull)"

definition linc_buildTextTags :: "hx_tag list option \<Rightarrow> Loreline_TextTag list option \<times> nat" where
  "linc_buildTextTags hxTags =
     (case hxTags of
        None \<Rightarrow> (None, 0)
      | Some arr \<Rightarrow>
          (if length arr = 0 then (None, 0)
           else (Some (map (\<lambda>tag. \<lparr>tag_value = linc_hxToString (hx_value tag),
                                    tag_offset = hx_offset tag,
                                    tag_closing = hx_closing tag\<rparr>) arr),
                 length arr)))"

definition linc_buildChoiceOptions ::
  "hx_option list option \<Rightarrow> Loreline_ChoiceOption list option \<times> nat" where
  "linc_buildChoiceOptions hxOptions =
     (case hxOptions of
        None \<Rightarrow> (None, 0)
      | Some arr \<Rightarrow>
          (if length arr = 0 then (None, 0)
           else (Some (map (\<lambda>opt. \<lparr>opt_text = linc_hxToString (hx_text opt),
                                    opt_tags = fst (linc_buildTextTags (hx_tags opt)),
                                    opt_tagCount = snd (linc_buildTextTags (hx_tags opt)),
                                    opt_enabled = hx_enabled opt\<rparr>) arr),
                 length arr)))"

subsection \<open>Handles\<close>

text \<open>
  Modelled from the spec: \<^verbatim>\<open>hx::GCAddRoot\<close> registers the field as a root and
  \<^verbatim>\<open>hx::GCRemoveRoot\<close> deregisters it; the two are functions of the hxcpp runtime.
\<close>

definition GCAddRoot :: "root \<Rightarrow> state \<Rightarrow> state" where
  "GCAddRoot r s = s\<lparr>roots := insert r (roots s)\<rparr>"

definition GCRemoveRoot :: "root \<Rightarrow> state \<Rightarrow> state" where
  "GCRemoveRoot r s = s\<lparr>roots := roots s - {r}\<rparr>"

definition new_Script :: "state \<Rightarrow> handle \<times> state" where
  "new_Script s =
     (next_handle s,
      s\<lparr>scripts := (scripts s)(next_handle s \<mapsto> None), next_handle := Suc (next_handle s)\<rparr>)"

definition Script_set :: "handle \<Rightarrow> hxobj option \<Rightarrow> state \<Rightarrow> exn + state" where
  "Script_set h ob s =
     (case scripts s h of
        None \<Rightarrow> Inl Dangling_handle
      | Some _ \<Rightarrow>
          (let s1 = s\<lparr>scripts := (scripts s)(h \<mapsto> ob)\<rparr>
           in Inr (if ob \<noteq> None then GCAddRoot (Script_obj h) s1 else s1)))"

definition delete_Script :: "handle \<Rightarrow> state \<Rightarrow> exn + state" where
  "delete_Script h s =
     (case scripts s h of
        None \<Rightarrow> Inl Dangling_handle
      | Some ob \<Rightarrow>
          (let s1 = (if ob \<noteq> None then GCRemoveRoot (Script_obj h) s else s)
           in Inr (s1\<lparr>scripts := (scripts s1)(h := None)\<rparr>)))"

definition new_Translations :: "state \<Rightarrow> handle \<times> state" where
  "new_Translations s =
     (next_handle s,
      s\<lparr>translation_handles := (translation_handles s)(next_handle s \<mapsto> None),
        next_handle := Suc (next_handle s)\<rparr>)"

definition Translations_set :: "handle \<Rightarrow> hxobj option \<Rightarrow> state \<Rightarrow> exn + state" where
  "Translations_set h ob s =
     (case translation_handles s h of
        None \<Rightarrow> Inl Dangling_handle
      | Some _ \<Rightarrow>
          (let s1 = s\<lparr>translation_handles := (translation_handles s)(h \<mapsto> ob)\<rparr>
           in Inr (if ob \<noteq> None then GCAddRoot (Translations_obj h) s1 else s1)))"

definition delete_Translations :: "handle \<Rightarrow> state \<Rightarrow> exn + state" where
  "delete_Translations h s =
     (case translation_handles s h of
        None \<Rightarrow> Inl Dangling_handle
      | Some ob \<Rightarrow>
          (let s1 = (if ob \<noteq> None then GCRemoveRoot (Translations_obj h) s else s)
           in Inr (s1\<lparr>translation_handles := (translation_handles s1)(h := None)\<rparr>)))"

definition new_Interpreter :: "state \<Rightarrow> handle \<times> state" where
  "new_Interpreter s =
     (next_handle s,
      s\<lparr>interpreters := (interpreters s)(next_handle s \<mapsto>
           \<lparr>obj = None, pendingCb = None, dialogueHandler = None, choiceHandler = None,
            finishHandler = None, userData = None\<rparr>),
        next_handle := Suc (next_handle s)\<rparr>)"

definition Interpreter_set :: "handle \<Rightarrow> hxobj option \<Rightarrow> state \<Rightarrow> exn + state" where
  "Interpreter_set h ob s =
     (case interpreters s h of
        None \<Rightarrow> Inl Dangling_handle
      | Some interp \<Rightarrow>
          (let s1 = s\<lparr>interpreters := (interpreters s)(h \<mapsto> interp\<lparr>obj := ob\<rparr>)\<rparr>
           in Inr (if ob \<noteq> None then GCAddRoot (Interpreter_obj h) s1 else s1)))"

definition setPendingCallback :: "handle \<Rightarrow> hxobj option \<Rightarrow> state \<Rightarrow> exn + state" where
  "setPendingCallback h cb s =
     (case interpreters s h of
        None \<Rightarrow> Inl Dangling_handle
      | Some interp \<Rightarrow>
          (let s1 = (if pendingCb interp \<noteq> None then GCRemoveRoot (Interpreter_pendingCb h) s
                     else s);
               s2 = s1\<lparr>interpreters := (interpreters s1)(h \<mapsto> interp\<lparr>pendingCb := cb\<rparr>)\<rparr>
           in Inr (if cb \<noteq> None then GCAddRoot (Interpreter_pendingCb h) s2 else s2)))"

definition delete_Interpreter :: "handle \<Rightarrow> state \<Rightarrow> exn + state" where
  "delete_Interpreter h s =
     (case interpreters s h of
        None \<Rightarrow> Inl Dangling_handle
      | Some interp \<Rightarrow>
          (let s1 = (if pendingCb interp \<noteq> None then GCRemoveRoot (Interpreter_pendingCb h) s
                     else s);
               s2 = (if obj interp \<noteq> None then GCRemoveRoot (Interpreter_obj h) s1 else s1)
           in Inr (s2\<lparr>interpreters := (interpreters s2)(h := None)\<rparr>)))"

subsection \<open>ensureHaxeThread\<close>

definition linc_Loreline_ensureHaxeThread :: "tid \<Rightarrow> state \<Rightarrow> exn + state" where
  "linc_Loreline_ensureHaxeThread currentThreadId s =
     (let s1 = (if \<not> didCallHaxeMain s
                then s\<lparr>didCallHaxeMain := True, haxeThreadId := Some currentThreadId,
                       engine_trace := engine_trace s @ [Eng_hxRunLibrary]\<rparr>
                else s)
      in if haxeThreadId s1 \<noteq> Some currentThreadId then Inl Wrong_thread else Inr s1)"

subsection \<open>What the host handlers are called with\<close>

text \<open>
  A dispatched-out closure calls the host handler, if the session has one. What the handler
  then does is the host's; a call it makes back into the bridge is one of the functions below.
\<close>

fun run_func :: "tid \<Rightarrow> func \<Rightarrow> state \<Rightarrow> exn + state" where
  "run_func caller (Out_dialogue h character text tags tagCount) s =
     (let s1 = s\<lparr>s_dispatchInterp := Some h\<rparr>
      in case interpreters s1 h of
           None \<Rightarrow> Inl Dangling_handle
         | Some interp \<Rightarrow>
             (case dialogueHandler interp of
                None \<Rightarrow> Inr s1
              | Some handler \<Rightarrow>
                  Inr (s1\<lparr>host_trace := host_trace s1 @
                         [Host_dialogue handler h character text tags tagCount (userData interp)]\<rparr>)))"
| "run_func caller (Out_choice h options optionCount) s =
     (let s1 = s\<lparr>s_dispatchInterp := Some h\<rparr>
      in case interpreters s1 h of
           None \<Rightarrow> Inl Dangling_handle
         | Some interp \<Rightarrow>
             (case choiceHandler interp of
                None \<Rightarrow> Inr s1
              | Some handler \<Rightarrow>
                  Inr (s1\<lparr>host_trace := host_trace s1 @
                         [Host_choice handler h options optionCount (userData interp)]\<rparr>)))"
| "run_func caller (Out_finish h) s =
     (case interpreters s h of
        None \<Rightarrow> Inl Dangling_handle
      | Some interp \<Rightarrow>
          (case finishHandler interp of
             None \<Rightarrow> Inr s
           | Some handler \<Rightarrow>
               Inr (s\<lparr>host_trace := host_trace s @ [Host_finish handler h (userData interp)]\<rparr>)))"

subsection \<open>The closures the engine calls\<close>

definition linc_ensureInterpHandle :: "handle \<Rightarrow> hxobj option \<Rightarrow> state \<Rightarrow> exn + state" where
  "linc_ensureInterpHandle h hxInterp s =
     (case interpreters s h of
        None \<Rightarrow> Inl Dangling_handle
      | Some interp \<Rightarrow>
          (if obj interp = None \<and> hxInterp \<noteq> None then Interpreter_set h hxInterp s
           else Inr s))"

definition hx_Closure_dialogue ::
  "handle \<Rightarrow> tid \<Rightarrow> hxobj option \<Rightarrow> string option \<Rightarrow> string option \<Rightarrow> hx_tag list option
     \<Rightarrow> hxobj option \<Rightarrow> state \<Rightarrow> exn + state" where
  "hx_Closure_dialogue h caller hxInterp hxChar hxText hxTags hxCallback s =
     (case linc_ensureInterpHandle h hxInterp s of
        Inl e \<Rightarrow> Inl e
      | Inr s1 \<Rightarrow>
          (let character = linc_hxToString hxChar;
               text = linc_hxToString hxText;
               (tags, tagCount) = linc_buildTextTags hxTags
           in case setPendingCallback h hxCallback s1 of
                Inl e \<Rightarrow> Inl e
              | Inr s2 \<Rightarrow>
                  linc_Loreline_dispatchOut run_func caller
                    (Out_dialogue h character text tags tagCount) s2))"

definition hx_Closure_choice ::
  "handle \<Rightarrow> tid \<Rightarrow> hxobj option \<Rightarrow> hx_option list option \<Rightarrow> hxobj option \<Rightarrow> state
     \<Rightarrow> exn + state" where
  "hx_Closure_choice h caller hxInterp hxOptions hxCallback s =
     (case linc_ensureInterpHandle h hxInterp s of
        Inl e \<Rightarrow> Inl e
      | Inr s1 \<Rightarrow>
          (let (options, optionCount) = linc_buildChoiceOptions hxOptions
           in case setPendingCallback h hxCallback s1 of
                Inl e \<Rightarrow> Inl e
              | Inr s2 \<Rightarrow>
                  linc_Loreline_dispatchOut run_func caller
                    (Out_choice h options optionCount) s2))"

definition hx_Closure_finish :: "handle \<Rightarrow> tid \<Rightarrow> hxobj option \<Rightarrow> state \<Rightarrow> exn + state" where
  "hx_Closure_finish h caller hxInterp s =
     (case linc_ensureInterpHandle h hxInterp s of
        Inl e \<Rightarrow> Inl e
      | Inr s1 \<Rightarrow> linc_Loreline_dispatchOut run_func caller (Out_finish h) s1)"

fun fire :: "tid \<Rightarrow> event \<Rightarrow> state \<Rightarrow> exn + state" where
  "fire caller (Fire_dialogue h hxInterp hxChar hxText hxTags hxCallback) s =
     hx_Closure_dialogue h caller hxInterp hxChar hxText hxTags hxCallback s"
| "fire caller (Fire_choice h hxInterp hxOptions hxCallback) s =
     hx_Closure_choice h caller hxInterp hxOptions hxCallback s"
| "fire caller (Fire_finish h hxInterp) s = hx_Closure_finish h caller hxInterp s"

fun fire_all :: "tid \<Rightarrow> event list \<Rightarrow> state \<Rightarrow> exn + state" where
  "fire_all caller [] s = Inr s"
| "fire_all caller (ev # evs) s =
     (case fire caller ev s of Inl e \<Rightarrow> Inl e | Inr s1 \<Rightarrow> fire_all caller evs s1)"

text \<open>
  One call into the engine: it is recorded, the closures the engine calls meanwhile run on
  the calling thread, and the engine's answer comes back with the state they left.
\<close>

definition engine_do ::
  "engine \<Rightarrow> tid \<Rightarrow> engine_call \<Rightarrow> state \<Rightarrow> exn + (outcome \<times> state)" where
  "engine_do eng caller c s =
     (let r = eng (engine_trace s) c
      in case fire_all caller (fired r) (s\<lparr>engine_trace := engine_trace s @ [c]\<rparr>) of
           Inl e \<Rightarrow> Inl e
         | Inr s1 \<Rightarrow> Inr (outcome r, s1))"

text \<open>A call outside any \<^verbatim>\<open>try\<close>: what the engine throws leaves the closure.\<close>

definition engine_call_uncaught ::
  "engine \<Rightarrow> tid \<Rightarrow> engine_call \<Rightarrow> state \<Rightarrow> exn + (hxval \<times> state)" where
  "engine_call_uncaught eng caller c s =
     (case engine_do eng caller c s of
        Inl e \<Rightarrow> Inl e
      | Inr (Throws e, s1) \<Rightarrow> Inl (Haxe_throw e)
      | Inr (Returns v, s1) \<Rightarrow> Inr (v, s1))"

subsection \<open>The bodies of the scheduled closures\<close>

text \<open>
  Where the source has \<^verbatim>\<open>try { ... } catch (::Dynamic e)\<close> the body looks at what the
  engine threw and goes on; elsewhere a throw leaves the closure.
\<close>

definition cstr :: "string \<Rightarrow> string" where
  "cstr bytes = take (strlen bytes) bytes"

fun task_body :: "engine \<Rightarrow> tid \<Rightarrow> task \<Rightarrow> state \<Rightarrow> exn + state" where
  "task_body eng caller T_init s = Inr s"
| "task_body eng caller T_dispose s = Inr s"
| "task_body eng caller T_gc s =
     (case engine_call_uncaught eng caller Eng_InternalCollect s of
        Inl e \<Rightarrow> Inl e
      | Inr (v, s1) \<Rightarrow> Inr s1)"
| "task_body eng caller (T_advance cb) s =
     (case engine_call_uncaught eng caller (Eng_run cb) s of
        Inl e \<Rightarrow> Inl e
      | Inr (v, s1) \<Rightarrow> Inr s1)"
| "task_body eng caller (T_select cb index) s =
     (case engine_call_uncaught eng caller (Eng_run_index cb index) s of
        Inl e \<Rightarrow> Inl e
      | Inr (v, s1) \<Rightarrow> Inr s1)"
| "task_body eng caller (T_parse input filePath fileHandler fileHandlerData) s =
     (let hxInput = linc_toHxString input;
          hxFilePath = linc_toHxString filePath;
          hxFileHandler = (fileHandler \<noteq> None \<and> filePath \<noteq> None)
      in case engine_do eng caller (Eng_parse hxInput hxFilePath hxFileHandler) s of
           Inl e \<Rightarrow> Inl e
         | Inr (Throws e, s1) \<Rightarrow> Inr s1
         | Inr (Returns hxScript, s1) \<Rightarrow>
             (if \<not> IsNull hxScript
              then (case new_Script s1 of
                      (handle, s2) \<Rightarrow>
                        (case Script_set handle (GetPtr hxScript)
                                (s2\<lparr>result := Ret_handle (Some handle)\<rparr>) of
                           Inl e \<Rightarrow> Inl e
                         | Inr s3 \<Rightarrow> Inr s3))
              else Inr s1))"
| "task_body eng caller (T_extractTranslations script) s =
     (case scripts s script of
        None \<Rightarrow> Inl Dangling_handle
      | Some ob \<Rightarrow>
          (case engine_call_uncaught eng caller (Eng_extractTranslations (Dynamic ob)) s of
             Inl e \<Rightarrow> Inl e
           | Inr (hxTranslations, s1) \<Rightarrow>
               (if \<not> IsNull hxTranslations
                then (case new_Translations s1 of
                        (handle, s2) \<Rightarrow>
                          (case Translations_set handle (GetPtr hxTranslations)
                                  (s2\<lparr>result := Ret_handle (Some handle)\<rparr>) of
                             Inl e \<Rightarrow> Inl e
                           | Inr s3 \<Rightarrow> Inr s3))
                else Inr s1)))"
| "task_body eng caller (T_releaseTranslations h) s = delete_Translations h s"
| "task_body eng caller (T_play h hxScript hxBeatName translationsObj) s =
     (case engine_do eng caller (Eng_play hxScript h hxBeatName translationsObj) s of
        Inl e \<Rightarrow> Inl e
      | Inr (Throws e, s1) \<Rightarrow> Inr s1
      | Inr (Returns hxInterp, s1) \<Rightarrow> Interpreter_set h (GetPtr hxInterp) s1)"
| "task_body eng caller (T_resume h hxScript hxSaveStr hxBeatName translationsObj) s =
     (case engine_call_uncaught eng caller (Eng_Json_parse hxSaveStr) s of
        Inl e \<Rightarrow> Inl e
      | Inr (hxSaveData, s1) \<Rightarrow>
          (case engine_do eng caller
                  (Eng_resume hxScript h hxSaveData hxBeatName translationsObj) s1 of
             Inl e \<Rightarrow> Inl e
           | Inr (Throws e, s2) \<Rightarrow> Inr s2
           | Inr (Returns hxInterp, s2) \<Rightarrow> Interpreter_set h (GetPtr hxInterp) s2))"
| "task_body eng caller (T_start interp hxBeatName) s =
     (case interpreters s interp of
        None \<Rightarrow> Inl Dangling_handle
      | Some i \<Rightarrow>
          (case engine_call_uncaught eng caller (Eng_start (Dynamic (obj i)) hxBeatName) s of
             Inl e \<Rightarrow> Inl e
           | Inr (v, s1) \<Rightarrow> Inr s1))"
| "task_body eng caller (T_save interp) s =
     (case interpreters s interp of
        None \<Rightarrow> Inl Dangling_handle
      | Some i \<Rightarrow>
          (case engine_call_uncaught eng caller (Eng_save (Dynamic (obj i))) s of
             Inl e \<Rightarrow> Inl e
           | Inr (saveData, s1) \<Rightarrow>
               (case engine_call_uncaught eng caller (Eng_Json_stringify saveData) s1 of
                  Inl e \<Rightarrow> Inl e
                | Inr (json, s2) \<Rightarrow>
                    Inr (s2\<lparr>result := Ret_string (linc_hxToString (hx_String json))\<rparr>))))"
| "task_body eng caller (T_restore interp hxSaveStr) s =
     (case interpreters s interp of
        None \<Rightarrow> Inl Dangling_handle
      | Some i \<Rightarrow>
          (case engine_call_uncaught eng caller (Eng_Json_parse hxSaveStr) s of
             Inl e \<Rightarrow> Inl e
           | Inr (hxSaveData, s1) \<Rightarrow>
               (case engine_call_uncaught eng caller
                       (Eng_restore (Dynamic (obj i)) hxSaveData) s1 of
                  Inl e \<Rightarrow> Inl e
                | Inr (v, s2) \<Rightarrow>
                    (case engine_call_uncaught eng caller
                            (Eng_interp_resume (Dynamic (obj i))) s2 of
                       Inl e \<Rightarrow> Inl e
                     | Inr (w, s3) \<Rightarrow> Inr s3))))"
| "task_body eng caller (T_getCharacterField interp character field) s =
     (case interpreters s interp of
        None \<Rightarrow> Inl Dangling_handle
      | Some i \<Rightarrow>
          (case engine_call_uncaught eng caller
                  (Eng_getCharacterField (Dynamic (obj i)) (cstr character) (cstr field)) s of
             Inl e \<Rightarrow> Inl e
           | Inr (val, s1) \<Rightarrow> Inr (s1\<lparr>result := Ret_value (linc_hxToValue val)\<rparr>)))"
| "task_body eng caller (T_setCharacterField interp character field v) s =
     (case interpreters s interp of
        None \<Rightarrow> Inl Dangling_handle
      | Some i \<Rightarrow>
          (case engine_call_uncaught eng caller
                  (Eng_setCharacterField (Dynamic (obj i)) (cstr character) (cstr field)
                     (linc_valueToHx v)) s of
             Inl e \<Rightarrow> Inl e
           | Inr (w, s1) \<Rightarrow> Inr s1))"
| "task_body eng caller (T_printScript script) s =
     (case scripts s script of
        None \<Rightarrow> Inl Dangling_handle
      | Some ob \<Rightarrow>
          (case engine_call_uncaught eng caller (Eng_print (Dynamic ob)) s of
             Inl e \<Rightarrow> Inl e
           | Inr (printed, s1) \<Rightarrow>
               Inr (s1\<lparr>result := Ret_string (linc_hxToString (hx_String printed))\<rparr>)))"
| "task_body eng caller (T_releaseScript script) s = delete_Script script s"
| "task_body eng caller (T_releaseInterpreter interp) s = delete_Interpreter interp s"

text \<open>Every scheduled closure starts with \<^verbatim>\<open>linc_Loreline_ensureHaxeThread\<close>.\<close>

definition run_task :: "engine \<Rightarrow> tid \<Rightarrow> task \<Rightarrow> state \<Rightarrow> exn + state" where
  "run_task eng caller task s =
     (case linc_Loreline_ensureHaxeThread caller s of
        Inl e \<Rightarrow> Inl e
      | Inr s1 \<Rightarrow> task_body eng caller task s1)"

section \<open>The functions of Loreline.h\<close>

text \<open>
  Each function takes the engine and the calling thread. A function that only schedules
  returns \<open>Inl\<close> of the exception it lets through or \<open>Inr\<close> of what it returns with the new
  state. A function that waits for the worker returns that in an \<open>option\<close>, \<open>None\<close> when
  the wait never ends.
\<close>

definition handle_of :: "retval \<Rightarrow> handle option" where
  "handle_of r = (case r of Ret_handle h \<Rightarrow> h | _ \<Rightarrow> None)"

definition string_of :: "retval \<Rightarrow> string option" where
  "string_of r = (case r of Ret_string str \<Rightarrow> str | _ \<Rightarrow> None)"

definition value_of :: "retval \<Rightarrow> Loreline_Value" where
  "value_of r = (case r of Ret_value v \<Rightarrow> v | _ \<Rightarrow> null_val)"

definition returning ::
  "(retval \<Rightarrow> 'a) \<Rightarrow> (exn + state) option \<Rightarrow> (exn + ('a \<times> state)) option" where
  "returning f r =
     (case r of
        None \<Rightarrow> None
      | Some (Inl e) \<Rightarrow> Some (Inl e)
      | Some (Inr s) \<Rightarrow> Some (Inr (f (result s), s)))"

definition Loreline_init :: "engine \<Rightarrow> tid \<Rightarrow> state \<Rightarrow> (exn + state) option" where
  "Loreline_init eng caller s = linc_Loreline_scheduleSync (run_task eng) caller T_init s"

definition Loreline_dispose :: "engine \<Rightarrow> tid \<Rightarrow> state \<Rightarrow> (exn + state) option" where
  "Loreline_dispose eng caller s =
     (case linc_Loreline_schedule (run_task eng) caller T_dispose s of
        Inl e \<Rightarrow> Some (Inl e)
      | Inr s1 \<Rightarrow>
          (if thread s1 \<noteq> None
           then (case Thread_delete (run_task eng) s1 of
                   None \<Rightarrow> None
                 | Some (Inl e) \<Rightarrow> Some (Inl e)
                 | Some (Inr s2) \<Rightarrow> Some (Inr (s2\<lparr>thread := None, useInternalThread := False\<rparr>)))
           else Some (Inr s1)))"

definition Loreline_gc :: "engine \<Rightarrow> tid \<Rightarrow> state \<Rightarrow> exn + state" where
  "Loreline_gc eng caller s = linc_Loreline_schedule (run_task eng) caller T_gc s"

definition Loreline_parse ::
  "engine \<Rightarrow> tid \<Rightarrow> string option \<Rightarrow> string option \<Rightarrow> fnptr option \<Rightarrow> userdata option
     \<Rightarrow> state \<Rightarrow> (exn + (handle option \<times> state)) option" where
  "Loreline_parse eng caller input filePath fileHandler fileHandlerData s =
     returning handle_of
       (linc_Loreline_scheduleSync (run_task eng) caller
          (T_parse input filePath fileHandler fileHandlerData)
          (s\<lparr>result := Ret_handle None\<rparr>))"

definition Loreline_extractTranslations ::
  "engine \<Rightarrow> tid \<Rightarrow> handle option \<Rightarrow> state \<Rightarrow> (exn + (handle option \<times> state)) option" where
  "Loreline_extractTranslations eng caller script s =
     (case script of
        None \<Rightarrow> Some (Inr (None, s))
      | Some sc \<Rightarrow>
          returning handle_of
            (linc_Loreline_scheduleSync (run_task eng) caller (T_extractTranslations sc)
               (s\<lparr>result := Ret_handle None\<rparr>)))"

definition Loreline_releaseTranslations ::
  "engine \<Rightarrow> tid \<Rightarrow> handle option \<Rightarrow> state \<Rightarrow> exn + state" where
  "Loreline_releaseTranslations eng caller translations s =
     (case translations of
        None \<Rightarrow> Inr s
      | Some t \<Rightarrow> linc_Loreline_schedule (run_task eng) caller (T_releaseTranslations t) s)"

text \<open>\<^verbatim>\<open>translations ? translations->obj : nullptr\<close>, read before the call is scheduled.\<close>

definition translations_obj :: "handle option \<Rightarrow> state \<Rightarrow> exn + hxobj option" where
  "translations_obj translations s =
     (case translations of
        None \<Rightarrow> Inr None
      | Some t \<Rightarrow>
          (case translation_handles s t of None \<Rightarrow> Inl Dangling_handle | Some ob \<Rightarrow> Inr ob))"

definition Loreline_play ::
  "engine \<Rightarrow> tid \<Rightarrow> handle option \<Rightarrow> fnptr option \<Rightarrow> fnptr option \<Rightarrow> fnptr option
     \<Rightarrow> string option \<Rightarrow> handle option \<Rightarrow> userdata option \<Rightarrow> state
     \<Rightarrow> exn + (handle option \<times> state)" where
  "Loreline_play eng caller script onDialogue onChoice onFinish beatName translations ud s =
     (case script of
        None \<Rightarrow> Inr (None, s)
      | Some sc \<Rightarrow>
          (case new_Interpreter s of
             (handle, s1) \<Rightarrow>
               (let s2 = s1\<lparr>interpreters := (interpreters s1)(handle \<mapsto>
                             \<lparr>obj = None, pendingCb = None, dialogueHandler = onDialogue,
                              choiceHandler = onChoice, finishHandler = onFinish,
                              userData = ud\<rparr>)\<rparr>;
                    hxBeatName = linc_toHxString beatName
                in case scripts s2 sc of
                     None \<Rightarrow> Inl Dangling_handle
                   | Some ob \<Rightarrow>
                       (case translations_obj translations s2 of
                          Inl e \<Rightarrow> Inl e
                        | Inr translationsObj \<Rightarrow>
                            (case linc_Loreline_schedule (run_task eng) caller
                                    (T_play handle (Dynamic ob) hxBeatName translationsObj) s2 of
                               Inl e \<Rightarrow> Inl e
                             | Inr s3 \<Rightarrow> Inr (Some handle, s3))))))"

definition Loreline_resume ::
  "engine \<Rightarrow> tid \<Rightarrow> handle option \<Rightarrow> fnptr option \<Rightarrow> fnptr option \<Rightarrow> fnptr option
     \<Rightarrow> string option \<Rightarrow> string option \<Rightarrow> handle option \<Rightarrow> userdata option \<Rightarrow> state
     \<Rightarrow> exn + (handle option \<times> state)" where
  "Loreline_resume eng caller script onDialogue onChoice onFinish saveData beatName
       translations ud s =
     (case script of
        None \<Rightarrow> Inr (None, s)
      | Some sc \<Rightarrow>
          (if saveData = None then Inr (None, s)
           else (case new_Interpreter s of
             (handle, s1) \<Rightarrow>
               (let s2 = s1\<lparr>interpreters := (interpreters s1)(handle \<mapsto>
                             \<lparr>obj = None, pendingCb = None, dialogueHandler = onDialogue,
                              choiceHandler = onChoice, finishHandler = onFinish,
                              userData = ud\<rparr>)\<rparr>;
                    hxBeatName = linc_toHxString beatName;
                    hxSaveStr = linc_toHxString saveData
                in case scripts s2 sc of
                     None \<Rightarrow> Inl Dangling_handle
                   | Some ob \<Rightarrow>
                       (case translations_obj translations s2 of
                          Inl e \<Rightarrow> Inl e
                        | Inr translationsObj \<Rightarrow>
                            (case linc_Loreline_schedule (run_task eng) caller
                                    (T_resume handle (Dynamic ob) hxSaveStr hxBeatName
                                       translationsObj) s2 of
                               Inl e \<Rightarrow> Inl e
                             | Inr s3 \<Rightarrow> Inr (Some handle, s3)))))))"

definition Loreline_start ::
  "engine \<Rightarrow> tid \<Rightarrow> handle option \<Rightarrow> string option \<Rightarrow> state \<Rightarrow> exn + state" where
  "Loreline_start eng caller interp beatName s =
     (case interp of
        None \<Rightarrow> Inr s
      | Some h \<Rightarrow>
          linc_Loreline_schedule (run_task eng) caller (T_start h (linc_toHxString beatName)) s)"

definition Loreline_save ::
  "engine \<Rightarrow> tid \<Rightarrow> handle option \<Rightarrow> state \<Rightarrow> (exn + (string option \<times> state)) option" where
  "Loreline_save eng caller interp s =
     (case interp of
        None \<Rightarrow> Some (Inr (None, s))
      | Some h \<Rightarrow>
          returning string_of
            (linc_Loreline_scheduleSync (run_task eng) caller (T_save h)
               (s\<lparr>result := Ret_string None\<rparr>)))"

definition Loreline_restore ::
  "engine \<Rightarrow> tid \<Rightarrow> handle option \<Rightarrow> string option \<Rightarrow> state \<Rightarrow> exn + state" where
  "Loreline_restore eng caller interp saveData s =
     (case interp of
        None \<Rightarrow> Inr s
      | Some h \<Rightarrow>
          (if saveData = None then Inr s
           else linc_Loreline_schedule (run_task eng) caller
                  (T_restore h (linc_toHxString saveData)) s))"

definition Loreline_getCharacterField ::
  "engine \<Rightarrow> tid \<Rightarrow> handle option \<Rightarrow> string option \<Rightarrow> string option \<Rightarrow> state
     \<Rightarrow> (exn + (Loreline_Value \<times> state)) option" where
  "Loreline_getCharacterField eng caller interp character field s =
     (case (interp, character, field) of
        (Some h, Some c, Some f) \<Rightarrow>
          returning value_of
            (linc_Loreline_scheduleSync (run_task eng) caller (T_getCharacterField h c f)
               (s\<lparr>result := Ret_none\<rparr>))
      | _ \<Rightarrow> Some (Inr (null_val, s)))"

definition Loreline_setCharacterField ::
  "engine \<Rightarrow> tid \<Rightarrow> handle option \<Rightarrow> string option \<Rightarrow> string option \<Rightarrow> Loreline_Value
     \<Rightarrow> state \<Rightarrow> exn + state" where
  "Loreline_setCharacterField eng caller interp character field v s =
     (case (interp, character, field) of
        (Some h, Some c, Some f) \<Rightarrow>
          linc_Loreline_schedule (run_task eng) caller (T_setCharacterField h c f v) s
      | _ \<Rightarrow> Inr s)"

definition Loreline_printScript ::
  "engine \<Rightarrow> tid \<Rightarrow> handle option \<Rightarrow> state \<Rightarrow> (exn + (string option \<times> state)) option" where
  "Loreline_printScript eng caller script s =
     (case script of
        None \<Rightarrow> Some (Inr (None, s))
      | Some sc \<Rightarrow>
          returning string_of
            (linc_Loreline_scheduleSync (run_task eng) caller (T_printScript sc)
               (s\<lparr>result := Ret_string None\<rparr>)))"

definition Loreline_releaseScript ::
  "engine \<Rightarrow> tid \<Rightarrow> handle option \<Rightarrow> state \<Rightarrow> exn + state" where
  "Loreline_releaseScript eng caller script s =
     (case script of
        None \<Rightarrow> Inr s
      | Some sc \<Rightarrow> linc_Loreline_schedule (run_task eng) caller (T_releaseScript sc) s)"

definition Loreline_releaseInterpreter ::
  "engine \<Rightarrow> tid \<Rightarrow> handle option \<Rightarrow> state \<Rightarrow> exn + state" where
  "Loreline_releaseInterpreter eng caller interp s =
     (case interp of
        None \<Rightarrow> Inr s
      | Some h \<Rightarrow> linc_Loreline_schedule (run_task eng) caller (T_releaseInterpreter h) s)"

subsection \<open>advance and select\<close>

text \<open>
  The two function pointers every dialogue and choice handler is given. They act on the
  session the last dispatched event named, \<^verbatim>\<open>s_dispatchInterp\<close>.
\<close>

definition linc_advance :: "engine \<Rightarrow> tid \<Rightarrow> state \<Rightarrow> exn + state" where
  "linc_advance eng caller s =
     (case s_dispatchInterp s of
        None \<Rightarrow> Inr s
      | Some h \<Rightarrow>
          (case interpreters s h of
             None \<Rightarrow> Inl Dangling_handle
           | Some interp \<Rightarrow>
               (case pendingCb interp of
                  None \<Rightarrow> Inr s
                | Some cb \<Rightarrow>
                    (case setPendingCallback h None s of
                       Inl e \<Rightarrow> Inl e
                     | Inr s1 \<Rightarrow>
                         linc_Loreline_schedule (run_task eng) caller (T_advance cb) s1))))"

definition linc_select :: "engine \<Rightarrow> tid \<Rightarrow> int \<Rightarrow> state \<Rightarrow> exn + state" where
  "linc_select eng caller index s =
     (case s_dispatchInterp s of
        None \<Rightarrow> Inr s
      | Some h \<Rightarrow>
          (case interpreters s h of
             None \<Rightarrow> Inl Dangling_handle
           | Some interp \<Rightarrow>
               (case pendingCb interp of
                  None \<Rightarrow> Inr s
                | Some cb \<Rightarrow>
                    (case setPendingCallback h None s of
                       Inl e \<Rightarrow> Inl e
                     | Inr s1 \<Rightarrow>
                         linc_Loreline_schedule (run_task eng) caller (T_select cb index) s1))))"

section \<open>What the properties are stated with\<close>

text \<open>
  Two states agree on the scheduler when they have the same worker, flags and thread
  bookkeeping. A runner keeps the scheduler when no closure it runs changes any of that;
  the closures of the bridge do (\<open>run_task_keeps_scheduler\<close> below).
\<close>

definition same_scheduler :: "('t, 'f) bridge \<Rightarrow> ('t, 'f) bridge \<Rightarrow> bool" where
  "same_scheduler s s1 =
     (thread s1 = thread s \<and> completed s1 = completed s
      \<and> useInternalThread s1 = useInternalThread s \<and> live_threads s1 = live_threads s
      \<and> next_sync s1 = next_sync s)"

definition keeps_scheduler :: "('t, 'f) runner \<Rightarrow> bool" where
  "keeps_scheduler run = (\<forall>w task s s1. run w task s = Inr s1 \<longrightarrow> same_scheduler s s1)"

text \<open>
  The worker \<open>th\<close> takes the closures \<open>qs\<close> off its queue one after the other, front
  first, and runs each on its own thread; it stops at the first exception.
\<close>

fun drain ::
  "('t, 'f) runner \<Rightarrow> 't Loreline_Thread \<Rightarrow> 't queued list \<Rightarrow> ('t, 'f) bridge
     \<Rightarrow> exn + ('t, 'f) bridge" where
  "drain run th [] s = Inr s"
| "drain run th (q # qs) s =
     (case run_queued run (workerThread th) q (s\<lparr>thread := Some (th\<lparr>taskQueue := qs\<rparr>)\<rparr>) of
        Inl e \<Rightarrow> Inl e
      | Inr s1 \<Rightarrow> drain run th qs s1)"

text \<open>
  The worker \<open>th\<close> runs the tasks \<open>ts\<close>, which are at the front of its queue with the
  closures \<open>behind\<close> after them, one after the other on its own thread, each in the state
  the one before left; it stops at the first exception. \<open>closure\<close> is the task a queued
  closure was made from.
\<close>

fun worker_runs ::
  "('t, 'f) runner \<Rightarrow> 't Loreline_Thread \<Rightarrow> 't list \<Rightarrow> 't queued list \<Rightarrow> ('t, 'f) bridge
     \<Rightarrow> exn + ('t, 'f) bridge" where
  "worker_runs run th [] behind s = Inr s"
| "worker_runs run th (t # ts) behind s =
     (case run (workerThread th) t
             (s\<lparr>thread := Some (th\<lparr>taskQueue := map Plain ts @ behind\<rparr>)\<rparr>) of
        Inl e \<Rightarrow> Inl e
      | Inr s1 \<Rightarrow> worker_runs run th ts behind s1)"

fun closure :: "'t queued \<Rightarrow> 't" where
  "closure (Plain t) = t"
| "closure (Wrapped t k) = t"

text \<open>
  The two statics that say whether a worker is in use agree with each other and with the
  threads that are alive: no worker, or exactly the one of \<open>thread\<close>.
\<close>

definition one_worker :: "('t, 'f) bridge \<Rightarrow> bool" where
  "one_worker s =
     (case thread s of
        None \<Rightarrow> \<not> useInternalThread s \<and> live_threads s = {}
      | Some th \<Rightarrow> useInternalThread s \<and> live_threads s = {workerThread th})"

text \<open>The continuation a session keeps alive through the root on its \<^verbatim>\<open>pendingCb\<close> field.\<close>

definition pending_pin :: "handle \<Rightarrow> state \<Rightarrow> hxobj option" where
  "pending_pin h s =
     (case interpreters s h of
        None \<Rightarrow> None
      | Some interp \<Rightarrow> (if Interpreter_pendingCb h \<in> roots s then pendingCb interp else None))"

text \<open>
  Two states agree on the worker when the flag, the live threads and the thread of the
  worker are the same; the worker's queue may differ.
\<close>

definition worker_rel :: "('t, 'f) bridge \<Rightarrow> ('t, 'f) bridge \<Rightarrow> bool" where
  "worker_rel s s1 =
     (useInternalThread s1 = useInternalThread s \<and> live_threads s1 = live_threads s
      \<and> map_option workerThread (thread s1) = map_option workerThread (thread s))"

text \<open>
  The states of the bridge: the initial one, and every state that a returning call of a
  function of \<^verbatim>\<open>Loreline.h\<close>, of \<^verbatim>\<open>advance\<close> or \<^verbatim>\<open>select\<close>, a flush of the
  dispatch-out queue or a turn of the worker leads to from one of them. A call is one
  step: the host is in one call at a time, and a synchronous call takes with it the turns
  the worker makes up to the closure of that call.
\<close>

inductive reachable :: "engine \<Rightarrow> state \<Rightarrow> bool" for eng :: engine where
  initial: "reachable eng bridge0"
| createThread: "reachable eng s \<Longrightarrow> reachable eng (Loreline_createThread w s)"
| init: "reachable eng s \<Longrightarrow> Loreline_init eng caller s = Some (Inr s1) \<Longrightarrow> reachable eng s1"
| dispose:
    "reachable eng s \<Longrightarrow> Loreline_dispose eng caller s = Some (Inr s1) \<Longrightarrow> reachable eng s1"
| gc: "reachable eng s \<Longrightarrow> Loreline_gc eng caller s = Inr s1 \<Longrightarrow> reachable eng s1"
| parse:
    "reachable eng s \<Longrightarrow>
     Loreline_parse eng caller input filePath fileHandler fileHandlerData s = Some (Inr (r, s1)) \<Longrightarrow>
     reachable eng s1"
| extractTranslations:
    "reachable eng s \<Longrightarrow>
     Loreline_extractTranslations eng caller script s = Some (Inr (r, s1)) \<Longrightarrow> reachable eng s1"
| releaseTranslations:
    "reachable eng s \<Longrightarrow>
     Loreline_releaseTranslations eng caller tr s = Inr s1 \<Longrightarrow> reachable eng s1"
| play:
    "reachable eng s \<Longrightarrow>
     Loreline_play eng caller script onDialogue onChoice onFinish beatName tr ud s
       = Inr (r, s1) \<Longrightarrow>
     reachable eng s1"
| resume:
    "reachable eng s \<Longrightarrow>
     Loreline_resume eng caller script onDialogue onChoice onFinish saveData beatName tr ud s
       = Inr (r, s1) \<Longrightarrow>
     reachable eng s1"
| start:
    "reachable eng s \<Longrightarrow> Loreline_start eng caller interp beatName s = Inr s1 \<Longrightarrow>
     reachable eng s1"
| save:
    "reachable eng s \<Longrightarrow> Loreline_save eng caller interp s = Some (Inr (str, s1)) \<Longrightarrow>
     reachable eng s1"
| restore:
    "reachable eng s \<Longrightarrow> Loreline_restore eng caller interp saveData s = Inr s1 \<Longrightarrow>
     reachable eng s1"
| getCharacterField:
    "reachable eng s \<Longrightarrow>
     Loreline_getCharacterField eng caller interp character field s = Some (Inr (v, s1)) \<Longrightarrow>
     reachable eng s1"
| setCharacterField:
    "reachable eng s \<Longrightarrow>
     Loreline_setCharacterField eng caller interp character field v s = Inr s1 \<Longrightarrow>
     reachable eng s1"
| printScript:
    "reachable eng s \<Longrightarrow> Loreline_printScript eng caller script s = Some (Inr (str, s1)) \<Longrightarrow>
     reachable eng s1"
| releaseScript:
    "reachable eng s \<Longrightarrow> Loreline_releaseScript eng caller script s = Inr s1 \<Longrightarrow>
     reachable eng s1"
| releaseInterpreter:
    "reachable eng s \<Longrightarrow> Loreline_releaseInterpreter eng caller interp s = Inr s1 \<Longrightarrow>
     reachable eng s1"
| advance: "reachable eng s \<Longrightarrow> linc_advance eng caller s = Inr s1 \<Longrightarrow> reachable eng s1"
| select: "reachable eng s \<Longrightarrow> linc_select eng caller i s = Inr s1 \<Longrightarrow> reachable eng s1"
| flush: "reachable eng s \<Longrightarrow> flush run_func caller s = Inr s1 \<Longrightarrow> reachable eng s1"
| worker:
    "reachable eng s \<Longrightarrow> threadLoop_turn (run_task eng) s = Ran (Inr s1) \<Longrightarrow> reachable eng s1"

text \<open>No closure in the queue of the worker is the wrapper of a synchronous call.\<close>

definition plain_queue :: "('t, 'f) bridge \<Rightarrow> bool" where
  "plain_queue s =
     (case thread s of
        None \<Rightarrow> True
      | Some th \<Rightarrow> list_all (\<lambda>q. case q of Plain t \<Rightarrow> True | Wrapped t k \<Rightarrow> False) (taskQueue th))"

text \<open>
  The roots of the pending-continuation fields are those of the live sessions whose field
  holds a continuation, and every live session has a handle that was given out.
\<close>

definition pending_ok :: "state \<Rightarrow> bool" where
  "pending_ok s =
     ((\<forall>h. (Interpreter_pendingCb h \<in> roots s) =
            (\<exists>interp. interpreters s h = Some interp \<and> pendingCb interp \<noteq> None))
      \<and> (\<forall>h. interpreters s h \<noteq> None \<longrightarrow> h < next_handle s))"

text \<open>
  What a dispatched-out closure does, as \<open>run_func\<close> has it: the session it belongs to,
  the handler calls it makes with the live sessions \<open>m\<close>, and what it leaves in
  \<^verbatim>\<open>s_dispatchInterp\<close>.
\<close>

fun func_session :: "func \<Rightarrow> handle" where
  "func_session (Out_dialogue h character text tags tagCount) = h"
| "func_session (Out_choice h options optionCount) = h"
| "func_session (Out_finish h) = h"

fun host_calls :: "(handle \<rightharpoonup> Loreline_Interpreter) \<Rightarrow> func \<Rightarrow> host_call list" where
  "host_calls m (Out_dialogue h character text tags tagCount) =
     (case m h of
        None \<Rightarrow> []
      | Some interp \<Rightarrow>
          (case dialogueHandler interp of
             None \<Rightarrow> []
           | Some handler \<Rightarrow>
               [Host_dialogue handler h character text tags tagCount (userData interp)]))"
| "host_calls m (Out_choice h options optionCount) =
     (case m h of
        None \<Rightarrow> []
      | Some interp \<Rightarrow>
          (case choiceHandler interp of
             None \<Rightarrow> []
           | Some handler \<Rightarrow> [Host_choice handler h options optionCount (userData interp)]))"
| "host_calls m (Out_finish h) =
     (case m h of
        None \<Rightarrow> []
      | Some interp \<Rightarrow>
          (case finishHandler interp of
             None \<Rightarrow> []
           | Some handler \<Rightarrow> [Host_finish handler h (userData interp)]))"

fun dispatched :: "handle option \<Rightarrow> func \<Rightarrow> handle option" where
  "dispatched d (Out_dialogue h character text tags tagCount) = Some h"
| "dispatched d (Out_choice h options optionCount) = Some h"
| "dispatched d (Out_finish h) = d"

section \<open>Engines and states of the examples\<close>

text \<open>An engine that returns null to every call and calls nothing back.\<close>

definition quiet_engine :: engine where
  "quiet_engine trace c = Reply [] (Returns HxNull)"

text \<open>
  The bridge after \<^verbatim>\<open>Loreline_createThread\<close> when the system gives the worker thread
  1, and with one collection queued.
\<close>

definition started :: "('t, 'f) bridge" where
  "started =
     bridge0\<lparr>useInternalThread := True,
             thread := Some \<lparr>workerThread = 1, taskQueue = [], stopFlag = False\<rparr>,
             live_threads := {1}\<rparr>"

definition gc_queued :: state where
  "gc_queued =
     started\<lparr>thread := Some \<lparr>workerThread = 1, taskQueue = [Plain T_gc], stopFlag = False\<rparr>\<rparr>"

text \<open>The bridge after a worker on thread 1 has run the first closure and been disposed of.\<close>

definition disposed :: state where
  "disposed =
     bridge0\<lparr>didCallHaxeMain := True, haxeThreadId := Some 1,
             engine_trace := [Eng_hxRunLibrary]\<rparr>"

text \<open>
  Dispatched-out callbacks that are numbers: callback \<open>n\<close> resumes continuation \<open>n\<close> and
  adds callback \<open>n + 10\<close> to the queue.
\<close>

definition relay :: "('t, nat) out_runner" where
  "relay caller n s = Inr (add (n + 10) (s\<lparr>engine_trace := engine_trace s @ [Eng_run n]\<rparr>))"

text \<open>A session, handle 1, that waits for \<^verbatim>\<open>advance\<close> with continuation 60 pending.\<close>

definition pending_state :: state where
  "pending_state =
     bridge0\<lparr>s_dispatchInterp := Some 1,
             interpreters := [1 \<mapsto> \<lparr>obj = Some 50, pendingCb = Some 60, dialogueHandler = Some 7,
                                   choiceHandler = None, finishHandler = None, userData = None\<rparr>],
             roots := {Interpreter_obj 1, Interpreter_pendingCb 1},
             next_handle := 2\<rparr>"

text \<open>
  An engine whose scripts open with a choice between two options: \<^verbatim>\<open>play\<close> calls the
  choice closure once, with continuation 60, and returns interpreter 50.
\<close>

definition two_options :: "hx_option list" where
  "two_options =
     [\<lparr>hx_text = Some ''yes'', hx_enabled = True, hx_tags = None\<rparr>,
      \<lparr>hx_text = Some ''no'', hx_enabled = True, hx_tags = None\<rparr>]"

definition choice_engine :: engine where
  "choice_engine trace c =
     (case c of
        Eng_parse hxInput hxFilePath hxFileHandler \<Rightarrow> Reply [] (Returns (HxObject 40))
      | Eng_play hxScript h hxBeatName translationsObj \<Rightarrow>
          Reply [Fire_choice h (Some 50) (Some two_options) (Some 60)] (Returns (HxObject 50))
      | _ \<Rightarrow> Reply [] (Returns HxNull))"

text \<open>The bridge after parsing \<^verbatim>\<open>"story"\<close> on thread 0 with no worker.\<close>

definition parsed :: state where
  "parsed =
     bridge0\<lparr>didCallHaxeMain := True, haxeThreadId := Some 0,
             scripts := [0 \<mapsto> Some 40], next_handle := 1, roots := {Script_obj 0},
             result := Ret_handle (Some 0),
             engine_trace := [Eng_hxRunLibrary, Eng_parse (HxString ''story'') HxNull False]\<rparr>"

definition choice_options :: "Loreline_ChoiceOption list" where
  "choice_options =
     [\<lparr>opt_text = Some ''yes'', opt_tags = None, opt_tagCount = 0, opt_enabled = True\<rparr>,
      \<lparr>opt_text = Some ''no'', opt_tags = None, opt_tagCount = 0, opt_enabled = True\<rparr>]"

text \<open>
  The bridge after playing that script with choice handler 7: the handler has been called
  with two options and the session waits for \<^verbatim>\<open>select\<close>.
\<close>

definition choice_pending :: state where
  "choice_pending =
     parsed\<lparr>s_dispatchInterp := Some 1,
            interpreters := [1 \<mapsto> \<lparr>obj = Some 50, pendingCb = Some 60, dialogueHandler = None,
                                  choiceHandler = Some 7, finishHandler = None,
                                  userData = None\<rparr>],
            next_handle := 2,
            roots := {Script_obj 0, Interpreter_obj 1, Interpreter_pendingCb 1},
            engine_trace := [Eng_hxRunLibrary, Eng_parse (HxString ''story'') HxNull False,
                             Eng_play (HxObject 40) 1 HxNull None],
            host_trace := [Host_choice 7 1 (Some choice_options) 2 None]\<rparr>"

text \<open>
  The bridge after \<^verbatim>\<open>select(0)\<close> in that state, with an engine that then calls nothing
  back: nothing is pending. And the bridge after the session has then been released.
\<close>

definition chosen :: state where
  "chosen =
     choice_pending
       \<lparr>interpreters := [1 \<mapsto> \<lparr>obj = Some 50, pendingCb = None, dialogueHandler = None,
                               choiceHandler = Some 7, finishHandler = None,
                               userData = None\<rparr>],
        roots := {Script_obj 0, Interpreter_obj 1},
        engine_trace := engine_trace choice_pending @ [Eng_run_index 60 0]\<rparr>"

definition released :: state where
  "released = chosen\<lparr>interpreters := Map.empty, roots := {Script_obj 0}\<rparr>"

text \<open>
  An engine that throws: on any source but \<^verbatim>\<open>"story"\<close>, on any start beat, on every
  resume, on any JSON text but \<^verbatim>\<open>"{}"\<close>, and on every save.
\<close>

definition throwing_engine :: engine where
  "throwing_engine trace c =
     (case c of
        Eng_parse hxInput hxFilePath hxFileHandler \<Rightarrow>
          (if hxInput = HxString ''story'' then Reply [] (Returns (HxObject 40))
           else Reply [] (Throws (HxString ''parse error'')))
      | Eng_play hxScript h hxBeatName translationsObj \<Rightarrow>
          (if hxBeatName = HxNull then Reply [] (Returns (HxObject 50))
           else Reply [] (Throws (HxString ''no such beat'')))
      | Eng_resume hxScript h hxSaveData hxBeatName translationsObj \<Rightarrow>
          Reply [] (Throws (HxString ''bad save data''))
      | Eng_Json_parse hxSaveStr \<Rightarrow>
          (if hxSaveStr = HxString ''{}'' then Reply [] (Returns (HxObject 70))
           else Reply [] (Throws (HxString ''invalid json'')))
      | Eng_save hxInterp \<Rightarrow> Reply [] (Throws (HxString ''cannot save''))
      | _ \<Rightarrow> Reply [] (Returns HxNull))"

text \<open>The bridge after parsing \<^verbatim>\<open>"story"\<close> and playing it, with no handlers, on thread 0.\<close>

definition playing :: state where
  "playing =
     bridge0\<lparr>didCallHaxeMain := True, haxeThreadId := Some 0,
             scripts := [0 \<mapsto> Some 40],
             interpreters := [1 \<mapsto> \<lparr>obj = Some 50, pendingCb = None, dialogueHandler = None,
                                   choiceHandler = None, finishHandler = None,
                                   userData = None\<rparr>],
             next_handle := 2,
             roots := {Script_obj 0, Interpreter_obj 1},
             result := Ret_handle (Some 0),
             engine_trace := [Eng_hxRunLibrary, Eng_parse (HxString ''story'') HxNull False,
                              Eng_play (HxObject 40) 1 HxNull None]\<rparr>"

text \<open>
  The session of \<open>pending_state\<close> with a worker in use and three callbacks buffered: a line,
  the end of the script (the session has no handler for it) and a second line.
\<close>

definition two_lines :: state where
  "two_lines =
     pending_state\<lparr>useInternalThread := True,
        dispatchOutFunctions := [Out_dialogue 1 None (Some ''one'') None 0,
                                 Out_finish 1,
                                 Out_dialogue 1 None (Some ''two'') None 0]\<rparr>"

section \<open>The string life cycle\<close>

lemma create_live:
  "linc_createStringData (Some bytes) n h =
     (Some (brk h),
      h\<lparr>cells := (cells h)(brk h \<mapsto> \<lparr>refCount = 1, len = n, data = take n bytes @ [NUL]\<rparr>),
        brk := Suc (brk h)\<rparr>)"
  by (simp add: linc_createStringData_def Let_def)

lemma retain_live:
  "cells h a = Some c \<Longrightarrow>
   linc_retainStringData (Some a) h =
     Inr (h\<lparr>cells := (cells h)(a \<mapsto> c\<lparr>refCount := refCount c + 1\<rparr>)\<rparr>)"
  unfolding linc_retainStringData_def by simp

lemma release_last:
  "cells h a = Some c \<Longrightarrow> refCount c = 1 \<Longrightarrow>
   linc_releaseStringData (Some a) h = Inr (free a h)"
  unfolding linc_releaseStringData_def by simp

lemma release_more:
  "cells h a = Some c \<Longrightarrow> refCount c \<noteq> 1 \<Longrightarrow>
   linc_releaseStringData (Some a) h =
     Inr (h\<lparr>cells := (cells h)(a \<mapsto> c\<lparr>refCount := refCount c - 1\<rparr>)\<rparr>)"
  unfolding linc_releaseStringData_def by simp

lemma release_dangling:
  "cells h a = None \<Longrightarrow> linc_releaseStringData (Some a) h = Inl UseAfterFree"
  unfolding linc_releaseStringData_def by simp

text \<open>\<open>n\<close> copies of a live string add \<open>n\<close> to its count (modulo \<open>2 ^ 32\<close>) and nothing else.\<close>

lemma copy_n_live:
  "cells h a = Some c \<Longrightarrow>
   copy_n n (Some a) h =
     Inr (replicate n (Some a),
          h\<lparr>cells := (cells h)(a \<mapsto> c\<lparr>refCount := refCount c + of_nat n\<rparr>)\<rparr>)"
proof (induction n arbitrary: h c)
  case 0
  then show ?case by (simp add: map_upd_triv)
next
  case (Suc n)
  let ?c1 = "c\<lparr>refCount := refCount c + 1\<rparr>"
  let ?h1 = "h\<lparr>cells := (cells h)(a \<mapsto> ?c1)\<rparr>"
  have live: "cells ?h1 a = Some ?c1" by simp
  have "copy_n (Suc n) (Some a) h =
        (case copy_n n (Some a) ?h1 of Inl e \<Rightarrow> Inl e | Inr (qs, h2) \<Rightarrow> Inr (Some a # qs, h2))"
    using Suc.prems by (simp add: String_copy_def retain_live)
  also have "\<dots> = Inr (Some a # replicate n (Some a),
       ?h1\<lparr>cells := (cells ?h1)(a \<mapsto> ?c1\<lparr>refCount := refCount ?c1 + of_nat n\<rparr>)\<rparr>)"
    unfolding Suc.IH [OF live] by simp
  also have "\<dots> = Inr (replicate (Suc n) (Some a),
       h\<lparr>cells := (cells h)(a \<mapsto> c\<lparr>refCount := refCount c + of_nat (Suc n)\<rparr>)\<rparr>)"
    by (simp add: add.assoc)
  finally show ?case .
qed

lemma word32_of_nat_eq_1:
  assumes "0 < k" "k \<le> 2 ^ 32"
  shows "(of_nat k = (1 :: 32 word)) = (k = 1)"
proof (cases "k = 2 ^ 32")
  case True
  then show ?thesis by simp
next
  case False
  with assms have lt: "k < 2 ^ 32" by simp
  have "unat (of_nat k :: 32 word) = k"
    using lt by (simp add: unat_of_nat)
  then show ?thesis
    by (metis unat_1 of_nat_1)
qed

text \<open>
  \<open>n + 1\<close> objects share a live buffer whose count is \<open>n + 1\<close>, with \<open>n + 1\<close> at most
  \<open>2 ^ 32\<close>: destroying them all frees the buffer at the last one.
\<close>

lemma destroy_all_live:
  "cells h a = Some c \<Longrightarrow> refCount c = of_nat (Suc n) \<Longrightarrow> Suc n \<le> 2 ^ 32 \<Longrightarrow>
   destroy_all (replicate (Suc n) (Some a)) h = Inr (free a h)"
proof (induction n arbitrary: h c)
  case 0
  have "refCount c = 1" using "0.prems"(2) by simp
  then have "String_destroy (Some a) h = Inr (free a h)"
    unfolding String_destroy_def by (rule release_last [OF "0.prems"(1)])
  then show ?case
    by (simp only: replicate.simps destroy_all.simps sum.case)
next
  case (Suc n)
  have ne: "refCount c \<noteq> 1"
    using Suc.prems word32_of_nat_eq_1 [of "Suc (Suc n)"] by simp
  let ?c1 = "c\<lparr>refCount := refCount c - 1\<rparr>"
  let ?h1 = "h\<lparr>cells := (cells h)(a \<mapsto> ?c1)\<rparr>"
  have step: "String_destroy (Some a) h = Inr ?h1"
    using Suc.prems ne by (simp add: String_destroy_def release_more)
  have live: "cells ?h1 a = Some ?c1" by simp
  have cnt: "refCount ?c1 = of_nat (Suc n)"
    using Suc.prems by simp
  have le: "Suc n \<le> 2 ^ 32" using Suc.prems by simp
  have "destroy_all (replicate (Suc (Suc n)) (Some a)) h =
        destroy_all (replicate (Suc n) (Some a)) ?h1"
    using step by simp
  also have "\<dots> = Inr (free a ?h1)"
    by (rule Suc.IH [OF live cnt le])
  finally show ?case by (simp add: free_def)
qed

text \<open>Once the count is 1, the first destruction frees the buffer and the second finds it gone.\<close>

lemma destroy_all_dangling:
  assumes "cells h a = Some c" "refCount c = 1"
  shows "destroy_all (Some a # Some a # ps) h = Inl UseAfterFree"
proof -
  let ?h1 = "free a h"
  have first: "String_destroy (Some a) h = Inr ?h1"
    unfolding String_destroy_def by (rule release_last [OF assms])
  have "cells ?h1 a = None" by (simp add: free_def)
  then have second: "String_destroy (Some a) ?h1 = Inl UseAfterFree"
    unfolding String_destroy_def by (rule release_dangling)
  show ?thesis by (simp add: first second)
qed

lemma lifecycle_below_wrap:
  assumes "N < 2 ^ 32"
  shows "lifecycle bytes N h = Inr (free (brk h) (h\<lparr>brk := Suc (brk h)\<rparr>))"
proof -
  let ?c = "\<lparr>refCount = 1, len = strlen bytes, data = take (strlen bytes) bytes @ [NUL]\<rparr>"
  let ?h1 = "h\<lparr>cells := (cells h)(brk h \<mapsto> ?c), brk := Suc (brk h)\<rparr>"
  let ?c2 = "?c\<lparr>refCount := refCount ?c + of_nat N\<rparr>"
  let ?h2 = "?h1\<lparr>cells := (cells ?h1)(brk h \<mapsto> ?c2)\<rparr>"
  have live1: "cells ?h1 (brk h) = Some ?c" by simp
  have live2: "cells ?h2 (brk h) = Some ?c2" by simp
  have cnt: "refCount ?c2 = of_nat (Suc N)" by simp
  have le: "Suc N \<le> 2 ^ 32" using assms by simp
  have "lifecycle bytes N h = destroy_all (Some (brk h) # replicate N (Some (brk h))) ?h2"
    by (simp add: lifecycle_def String_cstr_def create_live copy_n_live [OF live1])
  also have "\<dots> = destroy_all (replicate (Suc N) (Some (brk h))) ?h2"
    by (simp only: replicate_Suc)
  also have "\<dots> = Inr (free (brk h) ?h2)"
    by (rule destroy_all_live [OF live2 cnt le])
  finally show ?thesis by (simp add: free_def)
qed

text \<open>
  Building a string from bytes allocates one buffer with count 1. Copying a live string
  adds one to the shared count (a 32-bit addition), keeps the pointer and allocates
  nothing. Moving hands the pointer over, leaves null in the source and does not touch the
  heap. Destroying a live string frees its buffer when the count was 1 (the decrement
  reaches zero) and otherwise only takes one off. So a string copied \<open>N\<close> times, with
  \<open>N\<close> below \<open>2 ^ 32\<close>, and destroyed \<open>N + 1\<close> times is freed exactly once: one
  \<^verbatim>\<open>free\<close> of its address is logged and the buffer is gone.
\<close>

lemma refcount_lifecycle:
  assumes "cells h a = Some c" and "N < 2 ^ 32"
  shows "String_cstr (Some bytes) h =
           (Some (brk h),
            h\<lparr>cells := (cells h)(brk h \<mapsto>
                 \<lparr>refCount = 1, len = strlen bytes, data = take (strlen bytes) bytes @ [NUL]\<rparr>),
              brk := Suc (brk h)\<rparr>)
       \<and> String_copy (Some a) h =
           Inr (Some a, h\<lparr>cells := (cells h)(a \<mapsto> c\<lparr>refCount := refCount c + 1\<rparr>)\<rparr>)
       \<and> String_move p = (p, None)
       \<and> String_destroy (Some a) h =
           Inr (if refCount c - 1 = 0 then free a h
                else h\<lparr>cells := (cells h)(a \<mapsto> c\<lparr>refCount := refCount c - 1\<rparr>)\<rparr>)
       \<and> lifecycle bytes N h = Inr (free (brk h) (h\<lparr>brk := Suc (brk h)\<rparr>))
       \<and> freed (free (brk h) (h\<lparr>brk := Suc (brk h)\<rparr>)) = freed h @ [brk h]
       \<and> cells (free (brk h) (h\<lparr>brk := Suc (brk h)\<rparr>)) (brk h) = None"
proof -
  have create: "String_cstr (Some bytes) h =
           (Some (brk h),
            h\<lparr>cells := (cells h)(brk h \<mapsto>
                 \<lparr>refCount = 1, len = strlen bytes, data = take (strlen bytes) bytes @ [NUL]\<rparr>),
              brk := Suc (brk h)\<rparr>)"
    by (simp add: String_cstr_def create_live)
  have copy: "String_copy (Some a) h =
           Inr (Some a, h\<lparr>cells := (cells h)(a \<mapsto> c\<lparr>refCount := refCount c + 1\<rparr>)\<rparr>)"
    by (simp add: String_copy_def retain_live [OF assms(1)])
  have move: "String_move p = (p, None)"
    by (simp add: String_move_def)
  have destroy: "String_destroy (Some a) h =
           Inr (if refCount c - 1 = 0 then free a h
                else h\<lparr>cells := (cells h)(a \<mapsto> c\<lparr>refCount := refCount c - 1\<rparr>)\<rparr>)"
  proof (cases "refCount c = 1")
    case True
    then show ?thesis
      by (simp add: String_destroy_def release_last [OF assms(1)])
  next
    case False
    then show ?thesis
      by (simp add: String_destroy_def release_more [OF assms(1)])
  qed
  have cycle: "lifecycle bytes N h = Inr (free (brk h) (h\<lparr>brk := Suc (brk h)\<rparr>))"
    by (rule lifecycle_below_wrap [OF assms(2)])
  have log: "freed (free (brk h) (h\<lparr>brk := Suc (brk h)\<rparr>)) = freed h @ [brk h]"
    by (simp add: free_def)
  have gone: "cells (free (brk h) (h\<lparr>brk := Suc (brk h)\<rparr>)) (brk h) = None"
    by (simp add: free_def)
  from create copy move destroy cycle log gone show ?thesis by blast
qed

text \<open>
  On the heap that holds the one string \<^verbatim>\<open>"hi"\<close> at address 0, a second string
  \<^verbatim>\<open>"yo"\<close> is built at address 1, copied three times and destroyed four times.
  Address 1 is freed once.
\<close>

lemma refcount_lifecycle_example:
  "lifecycle ''yo'' 3 (snd (String_cstr (Some ''hi'') heap0)) =
     Inr (free 1 ((snd (String_cstr (Some ''hi'') heap0))\<lparr>brk := 2\<rparr>))
   \<and> freed (free 1 ((snd (String_cstr (Some ''hi'') heap0))\<lparr>brk := 2\<rparr>)) = [1]
   \<and> String_copy (Some 0) (snd (String_cstr (Some ''hi'') heap0)) =
       Inr (Some 0,
            (snd (String_cstr (Some ''hi'') heap0))
              \<lparr>cells := (cells (snd (String_cstr (Some ''hi'') heap0)))
                 (0 \<mapsto> \<lparr>refCount = 2, len = 2, data = ''hi'' @ [NUL]\<rparr>)\<rparr>)"
proof -
  let ?h = "snd (String_cstr (Some ''hi'') heap0)"
  let ?c = "\<lparr>refCount = 1, len = 2, data = ''hi'' @ [NUL]\<rparr>"
  have live: "cells ?h 0 = Some ?c"
    by (simp add: String_cstr_def create_live heap0_def strlen_def NUL_def)
  have small: "(3::nat) < 2 ^ 32" by simp
  have brk: "brk ?h = 1"
    by (simp add: String_cstr_def create_live heap0_def)
  have fr: "freed ?h = []"
    by (simp add: String_cstr_def create_live heap0_def)
  show ?thesis
    using refcount_lifecycle [OF live small, of "''yo''" None] brk fr
    by (simp add: numeral_2_eq_2)
qed

lemma copies_wrap:
  "copy_n 4294967296 (Some 0) (snd (String_cstr (Some ''a'') heap0)) =
     Inr (replicate 4294967296 (Some 0), snd (String_cstr (Some ''a'') heap0))"
proof -
  let ?h = "snd (String_cstr (Some ''a'') heap0)"
  let ?c = "\<lparr>refCount = 1, len = 1, data = ''a'' @ [NUL]\<rparr>"
  have live: "cells ?h 0 = Some ?c"
    by (simp add: String_cstr_def create_live heap0_def strlen_def NUL_def)
  have "?c\<lparr>refCount := refCount ?c + of_nat 4294967296\<rparr> = ?c"
    by simp
  then show ?thesis
    unfolding copy_n_live [OF live] using live by (simp add: map_upd_triv)
qed

text \<open>
  Claim C8, where the code departs from it. The count is a 32-bit integer, and
  \<^verbatim>\<open>linc_retainStringData\<close> adds to it with no guard against its coming back round. A
  string copied three times and destroyed four times is freed exactly once, as the claim
  says. After \<open>2 ^ 32\<close> copies the count is back at 1 and the heap is what it was before
  the first copy, while \<open>2 ^ 32 + 1\<close> objects hold the buffer: the first destruction
  frees it, and the second touches freed memory.
\<close>

theorem C8_refcount_wraps_after_2_32_copies:
  "lifecycle ''a'' 3 heap0 = Inr (free 0 (heap0\<lparr>brk := 1\<rparr>))
   \<and> freed (free 0 (heap0\<lparr>brk := 1\<rparr>)) = [0]
   \<and> copy_n 4294967296 (Some 0) (snd (String_cstr (Some ''a'') heap0)) =
       Inr (replicate 4294967296 (Some 0), snd (String_cstr (Some ''a'') heap0))
   \<and> lifecycle ''a'' 4294967296 heap0 = Inl UseAfterFree"
proof -
  have three: "lifecycle ''a'' 3 heap0 = Inr (free 0 (heap0\<lparr>brk := 1\<rparr>))"
    using lifecycle_below_wrap [of 3 "''a''" heap0] by (simp add: heap0_def)
  have log: "freed (free 0 (heap0\<lparr>brk := 1\<rparr>)) = [0]"
    by (simp add: free_def heap0_def)
  let ?c = "\<lparr>refCount = 1, len = strlen ''a'', data = take (strlen ''a'') ''a'' @ [NUL]\<rparr>"
  let ?h1 = "heap0\<lparr>cells := (cells heap0)(brk heap0 \<mapsto> ?c), brk := Suc (brk heap0)\<rparr>"
  let ?c2 = "?c\<lparr>refCount := refCount ?c + of_nat 4294967296\<rparr>"
  let ?h2 = "?h1\<lparr>cells := (cells ?h1)(brk heap0 \<mapsto> ?c2)\<rparr>"
  have live1: "cells ?h1 (brk heap0) = Some ?c" by simp
  have live2: "cells ?h2 (brk heap0) = Some ?c2" by simp
  have one: "refCount ?c2 = 1" by simp
  have pos: "replicate 4294967296 (Some (brk heap0)) =
             Some (brk heap0) # replicate 4294967295 (Some (brk heap0))"
    by (simp flip: replicate_Suc)
  have "lifecycle ''a'' 4294967296 heap0
          = destroy_all (Some (brk heap0) # replicate 4294967296 (Some (brk heap0))) ?h2"
    by (simp add: lifecycle_def String_cstr_def create_live copy_n_live [OF live1])
  also have "\<dots> = Inl UseAfterFree"
    unfolding pos by (rule destroy_all_dangling [OF live2 one])
  finally have wrap: "lifecycle ''a'' 4294967296 heap0 = Inl UseAfterFree" .
  show ?thesis
    using three log copies_wrap wrap by simp
qed


text \<open>
  Claim C10. A string built with no argument or from a null pointer is null: \<open>isNull\<close>
  holds, the conversion to \<open>bool\<close> is false, \<open>c_str\<close> is the null pointer and the length
  is 0. A string built from a pointer that is not null holds a buffer, also when it has no
  bytes: it is not null, its \<open>c_str\<close> is a pointer to the terminating NUL, and only its
  length agrees with the null string's.
\<close>

theorem C10_null_is_not_empty:
  "isNull String_null \<and> \<not> String_bool String_null
   \<and> c_str String_null h = Inr None \<and> String_length String_null h = Inr 0
   \<and> String_cstr None h = (String_null, h)
   \<and> String_bytes None n h = (String_null, h)
   \<and> \<not> isNull (fst (String_cstr (Some bytes) h))
   \<and> String_bool (fst (String_cstr (Some bytes) h))
   \<and> c_str (fst (String_cstr (Some bytes) h)) (snd (String_cstr (Some bytes) h))
        = Inr (Some (take (strlen bytes) bytes @ [NUL]))
   \<and> String_length (fst (String_cstr (Some bytes) h)) (snd (String_cstr (Some bytes) h))
        = Inr (strlen bytes)
   \<and> \<not> isNull (fst (String_bytes (Some bytes) n h))
   \<and> String_bool (fst (String_bytes (Some bytes) n h))
   \<and> c_str (fst (String_bytes (Some bytes) n h)) (snd (String_bytes (Some bytes) n h))
        = Inr (Some (take n bytes @ [NUL]))
   \<and> String_length (fst (String_bytes (Some bytes) n h)) (snd (String_bytes (Some bytes) n h))
        = Inr n
   \<and> \<not> isNull (fst (String_cstr (Some []) h))
   \<and> c_str (fst (String_cstr (Some []) h)) (snd (String_cstr (Some []) h)) = Inr (Some [NUL])
   \<and> String_length (fst (String_cstr (Some []) h)) (snd (String_cstr (Some []) h)) = Inr 0"
  by (simp add: isNull_def String_bool_def String_null_def c_str_def String_length_def
      String_cstr_def String_bytes_def create_live strlen_def)

section \<open>The closures of the bridge keep the scheduler\<close>

lemma same_scheduler_refl: "same_scheduler s s"
  by (simp add: same_scheduler_def)

lemma same_scheduler_trans:
  "same_scheduler s s1 \<Longrightarrow> same_scheduler s1 s2 \<Longrightarrow> same_scheduler s s2"
  by (simp add: same_scheduler_def)

lemma GCAddRoot_frame: "same_scheduler s (GCAddRoot r s)"
  by (simp add: same_scheduler_def GCAddRoot_def)

lemma GCRemoveRoot_frame: "same_scheduler s (GCRemoveRoot r s)"
  by (simp add: same_scheduler_def GCRemoveRoot_def)

lemma Script_set_frame: "Script_set h ob s = Inr s1 \<Longrightarrow> same_scheduler s s1"
  by (auto simp: same_scheduler_def Script_set_def GCAddRoot_def Let_def split: option.splits if_splits)

lemma delete_Script_frame: "delete_Script h s = Inr s1 \<Longrightarrow> same_scheduler s s1"
  by (auto simp: same_scheduler_def delete_Script_def GCRemoveRoot_def Let_def split: option.splits if_splits)

lemma Translations_set_frame: "Translations_set h ob s = Inr s1 \<Longrightarrow> same_scheduler s s1"
  by (auto simp: same_scheduler_def Translations_set_def GCAddRoot_def Let_def split: option.splits if_splits)

lemma delete_Translations_frame: "delete_Translations h s = Inr s1 \<Longrightarrow> same_scheduler s s1"
  by (auto simp: same_scheduler_def delete_Translations_def GCRemoveRoot_def Let_def split: option.splits if_splits)

lemma Interpreter_set_frame: "Interpreter_set h ob s = Inr s1 \<Longrightarrow> same_scheduler s s1"
  by (auto simp: same_scheduler_def Interpreter_set_def GCAddRoot_def Let_def split: option.splits if_splits)

lemma setPendingCallback_frame: "setPendingCallback h cb s = Inr s1 \<Longrightarrow> same_scheduler s s1"
  by (auto simp: same_scheduler_def setPendingCallback_def GCAddRoot_def GCRemoveRoot_def Let_def
      split: option.splits if_splits)

lemma delete_Interpreter_frame: "delete_Interpreter h s = Inr s1 \<Longrightarrow> same_scheduler s s1"
  by (auto simp: same_scheduler_def delete_Interpreter_def GCRemoveRoot_def Let_def
      split: option.splits if_splits)

lemma ensureHaxeThread_frame:
  "linc_Loreline_ensureHaxeThread c s = Inr s1 \<Longrightarrow> same_scheduler s s1"
  by (auto simp: same_scheduler_def linc_Loreline_ensureHaxeThread_def Let_def split: if_splits)

lemma run_func_frame: "run_func c f s = Inr s1 \<Longrightarrow> same_scheduler s s1"
  by (cases f) (auto simp: same_scheduler_def Let_def split: option.splits)

lemma dispatchOut_frame:
  "linc_Loreline_dispatchOut run_func c f s = Inr s1 \<Longrightarrow> same_scheduler s s1"
  by (auto simp: linc_Loreline_dispatchOut_def add_def same_scheduler_def
      dest: run_func_frame split: if_splits)

lemma ensureInterpHandle_frame:
  "linc_ensureInterpHandle h x s = Inr s1 \<Longrightarrow> same_scheduler s s1"
  by (auto simp: linc_ensureInterpHandle_def same_scheduler_refl
      dest: Interpreter_set_frame split: option.splits if_splits)

lemma fire_frame: "fire c ev s = Inr s1 \<Longrightarrow> same_scheduler s s1"
proof (cases ev)
  case (Fire_dialogue h a b d e f)
  assume "fire c ev s = Inr s1"
  then show ?thesis
    unfolding Fire_dialogue fire.simps hx_Closure_dialogue_def
    by (auto simp: Let_def split: sum.splits prod.splits 
        dest!: ensureInterpHandle_frame setPendingCallback_frame dispatchOut_frame
        intro: same_scheduler_trans)
next
  case (Fire_choice h a b d)
  assume "fire c ev s = Inr s1"
  then show ?thesis
    unfolding Fire_choice fire.simps hx_Closure_choice_def
    by (auto simp: Let_def split: sum.splits prod.splits 
        dest!: ensureInterpHandle_frame setPendingCallback_frame dispatchOut_frame
        intro: same_scheduler_trans)
next
  case (Fire_finish h a)
  assume "fire c ev s = Inr s1"
  then show ?thesis
    unfolding Fire_finish fire.simps hx_Closure_finish_def
    by (auto simp: Let_def split: sum.splits prod.splits 
        dest!: ensureInterpHandle_frame dispatchOut_frame
        intro: same_scheduler_trans)
qed

lemma fire_all_frame: "fire_all c evs s = Inr s1 \<Longrightarrow> same_scheduler s s1"
proof (induction evs arbitrary: s)
  case Nil
  then show ?case by (simp add: same_scheduler_refl)
next
  case (Cons ev evs)
  then show ?case
    by (auto split: sum.splits dest!: fire_frame intro: same_scheduler_trans)
qed

lemma engine_do_frame: "engine_do eng c call s = Inr (r, s1) \<Longrightarrow> same_scheduler s s1"
  by (auto simp: engine_do_def Let_def same_scheduler_def split: sum.splits dest!: fire_all_frame)

lemma engine_call_uncaught_frame:
  "engine_call_uncaught eng c call s = Inr (v, s1) \<Longrightarrow> same_scheduler s s1"
  by (auto simp: engine_call_uncaught_def split: sum.splits outcome.splits dest!: engine_do_frame)


lemma new_Script_frame: "new_Script s = (h, s1) \<Longrightarrow> same_scheduler s s1"
  by (auto simp: new_Script_def same_scheduler_def)

lemma new_Translations_frame: "new_Translations s = (h, s1) \<Longrightarrow> same_scheduler s s1"
  by (auto simp: new_Translations_def same_scheduler_def)

lemma result_frame: "same_scheduler s (s\<lparr>result := r\<rparr>)"
  by (simp add: same_scheduler_def)

lemma task_body_frame: "task_body eng c task s = Inr s1 \<Longrightarrow> same_scheduler s s1"
proof (cases task)
  case (T_parse a b d e)
  assume "task_body eng c task s = Inr s1"
  then show ?thesis
    unfolding T_parse task_body.simps Let_def
    by (auto split: sum.splits prod.splits outcome.splits if_splits
        dest!: engine_do_frame new_Script_frame Script_set_frame
        simp: same_scheduler_def)
next
  case (T_extractTranslations h)
  assume "task_body eng c task s = Inr s1"
  then show ?thesis
    unfolding T_extractTranslations task_body.simps
    by (auto split: sum.splits prod.splits option.splits if_splits
        dest!: engine_call_uncaught_frame new_Translations_frame Translations_set_frame
        simp: same_scheduler_def)
next
  case (T_save h)
  assume "task_body eng c task s = Inr s1"
  then show ?thesis
    unfolding T_save task_body.simps
    by (auto split: sum.splits prod.splits option.splits
        dest!: engine_call_uncaught_frame
        simp: same_scheduler_def)
next
  case (T_restore h x)
  assume "task_body eng c task s = Inr s1"
  then show ?thesis
    unfolding T_restore task_body.simps
    by (auto split: sum.splits prod.splits option.splits
        dest!: engine_call_uncaught_frame
        simp: same_scheduler_def)
next
  case (T_resume h a b d e)
  assume "task_body eng c task s = Inr s1"
  then show ?thesis
    unfolding T_resume task_body.simps
    by (auto split: sum.splits prod.splits outcome.splits
        dest!: engine_call_uncaught_frame engine_do_frame Interpreter_set_frame
        simp: same_scheduler_def)
qed (auto simp: same_scheduler_def split: sum.splits prod.splits outcome.splits option.splits
      dest!: engine_call_uncaught_frame engine_do_frame Interpreter_set_frame
        delete_Script_frame delete_Interpreter_frame delete_Translations_frame
      )

lemma run_task_frame: "run_task eng c task s = Inr s1 \<Longrightarrow> same_scheduler s s1"
  by (auto simp: run_task_def same_scheduler_def split: sum.splits
      dest!: ensureHaxeThread_frame task_body_frame)

section \<open>The worker's loop\<close>

lemma run_task_keeps_scheduler: "keeps_scheduler (run_task eng)"
  unfolding keeps_scheduler_def using run_task_frame by blast

lemma run_queued_same:
  "keeps_scheduler run \<Longrightarrow> run_queued run w q s = Inr s1 \<Longrightarrow>
   thread s1 = thread s \<and> useInternalThread s1 = useInternalThread s
   \<and> live_threads s1 = live_threads s \<and> next_sync s1 = next_sync s
   \<and> completed s1 = (case q of Plain t \<Rightarrow> completed s | Wrapped t j \<Rightarrow> insert j (completed s))"
  by (cases q) (auto simp: keeps_scheduler_def same_scheduler_def split: sum.splits)

lemma drain_taskQueue:
  "drain run (th\<lparr>taskQueue := x\<rparr>) qs s = drain run th qs s"
  by (induction qs arbitrary: s) (auto split: sum.splits)

lemma threadLoop_stopping:
  assumes "keeps_scheduler run"
  shows "thread s = Some th \<Longrightarrow> stopFlag th \<Longrightarrow> taskQueue th = qs \<Longrightarrow>
         threadLoop run s = Some (drain run th qs s)"
proof (induction qs arbitrary: s th)
  case Nil
  then show ?case
    by (subst threadLoop.simps) (simp add: threadLoop_turn_def)
next
  case (Cons q qs)
  let ?s0 = "s\<lparr>thread := Some (th\<lparr>taskQueue := qs\<rparr>)\<rparr>"
  have turn: "threadLoop_turn run s = Ran (run_queued run (workerThread th) q ?s0)"
    using Cons.prems by (simp add: threadLoop_turn_def)
  show ?case
  proof (cases "run_queued run (workerThread th) q ?s0")
    case (Inl e)
    then show ?thesis
      using turn by (subst threadLoop.simps) simp
  next
    case (Inr s1)
    have th1: "thread s1 = Some (th\<lparr>taskQueue := qs\<rparr>)"
      using run_queued_same [OF assms Inr] by simp
    have "threadLoop run s1 = Some (drain run (th\<lparr>taskQueue := qs\<rparr>) qs s1)"
      using Cons.IH [OF th1] Cons.prems by simp
    then show ?thesis
      using turn Inr by (subst threadLoop.simps) (simp add: drain_taskQueue)
  qed
qed

lemma await_wrapped:
  assumes "keeps_scheduler run"
  shows "thread s = Some th \<Longrightarrow> taskQueue th = qs @ [Wrapped task k] \<Longrightarrow>
         k \<notin> completed s \<Longrightarrow> (\<forall>t. Wrapped t k \<notin> set qs) \<Longrightarrow>
         await run k s = Some (drain run th (qs @ [Wrapped task k]) s)"
proof (induction qs arbitrary: s th)
  case Nil
  let ?s0 = "s\<lparr>thread := Some (th\<lparr>taskQueue := []\<rparr>)\<rparr>"
  have turn: "threadLoop_turn run s = Ran (run_queued run (workerThread th) (Wrapped task k) ?s0)"
    using Nil.prems by (simp add: threadLoop_turn_def)
  show ?case
  proof (cases "run (workerThread th) task ?s0")
    case (Inl e)
    then show ?thesis
      using turn Nil.prems by (subst await.simps) simp
  next
    case (Inr s1)
    have "await run k (s1\<lparr>completed := insert k (completed s1)\<rparr>)
            = Some (Inr (s1\<lparr>completed := insert k (completed s1)\<rparr>))"
      by (subst await.simps) simp
    then show ?thesis
      using turn Nil.prems Inr by (subst await.simps) simp
  qed
next
  case (Cons q qs)
  let ?s0 = "s\<lparr>thread := Some (th\<lparr>taskQueue := qs @ [Wrapped task k]\<rparr>)\<rparr>"
  have turn: "threadLoop_turn run s = Ran (run_queued run (workerThread th) q ?s0)"
    using Cons.prems by (simp add: threadLoop_turn_def)
  show ?case
  proof (cases "run_queued run (workerThread th) q ?s0")
    case (Inl e)
    then show ?thesis
      using turn Cons.prems by (subst await.simps) simp
  next
    case (Inr s1)
    have th1: "thread s1 = Some (th\<lparr>taskQueue := qs @ [Wrapped task k]\<rparr>)"
      using run_queued_same [OF assms Inr] by simp
    have k1: "k \<notin> completed s1"
      using run_queued_same [OF assms Inr] Cons.prems by (cases q) auto
    have "await run k s1 =
          Some (drain run (th\<lparr>taskQueue := qs @ [Wrapped task k]\<rparr>) (qs @ [Wrapped task k]) s1)"
      using Cons.IH [OF th1 _ k1] Cons.prems by simp
    then show ?thesis
      using turn Inr Cons.prems by (subst await.simps) (simp add: drain_taskQueue)
  qed
qed

lemma drain_completes:
  "drain run th (qs @ [Wrapped task k]) s = Inr s1 \<Longrightarrow> k \<in> completed s1"
  by (induction qs arbitrary: s) (auto split: sum.splits)

lemma drain_same:
  assumes "keeps_scheduler run"
  shows "drain run th qs s = Inr s1 \<Longrightarrow>
         thread s1 = (if qs = [] then thread s else Some (th\<lparr>taskQueue := []\<rparr>))
         \<and> useInternalThread s1 = useInternalThread s \<and> live_threads s1 = live_threads s"
proof (induction qs arbitrary: s)
  case Nil
  then show ?case by simp
next
  case (Cons q qs)
  let ?s0 = "s\<lparr>thread := Some (th\<lparr>taskQueue := qs\<rparr>)\<rparr>"
  from Cons.prems obtain s2 where
    step: "run_queued run (workerThread th) q ?s0 = Inr s2" and rest: "drain run th qs s2 = Inr s1"
    by (auto split: sum.splits)
  have "thread s2 = Some (th\<lparr>taskQueue := qs\<rparr>) \<and> useInternalThread s2 = useInternalThread s
        \<and> live_threads s2 = live_threads s"
    using run_queued_same [OF assms step] by simp
  then show ?case
    using Cons.IH [OF rest] by simp
qed

lemma Thread_delete_drains:
  assumes "keeps_scheduler run" and "thread s = Some th"
  shows "Thread_delete run s =
           Some (case drain run (th\<lparr>stopFlag := True\<rparr>) (taskQueue th)
                        (s\<lparr>thread := Some (th\<lparr>stopFlag := True\<rparr>)\<rparr>) of
                   Inl e \<Rightarrow> Inl e
                 | Inr s1 \<Rightarrow> Inr (s1\<lparr>live_threads := live_threads s1 - {workerThread th}\<rparr>))"
proof -
  let ?th = "th\<lparr>stopFlag := True\<rparr>"
  let ?s = "s\<lparr>thread := Some ?th\<rparr>"
  have "threadLoop run ?s = Some (drain run ?th (taskQueue th) ?s)"
    by (rule threadLoop_stopping [OF assms(1)]) simp_all
  then show ?thesis
    using assms(2) by (simp add: Thread_delete_def split: sum.splits)
qed


section \<open>Shutdown of the worker\<close>

lemma createThread_bridge0: "Loreline_createThread 1 bridge0 = started"
  by (simp add: Loreline_createThread_def Thread_new_def bridge0_def started_def)

lemma run_task_first:
  "\<not> didCallHaxeMain s \<Longrightarrow>
   run_task eng w task s =
     task_body eng w task
       (s\<lparr>didCallHaxeMain := True, haxeThreadId := Some w,
          engine_trace := engine_trace s @ [Eng_hxRunLibrary]\<rparr>)"
  by (simp add: run_task_def linc_Loreline_ensureHaxeThread_def Let_def)

lemma run_task_home:
  "didCallHaxeMain s \<Longrightarrow> haxeThreadId s = Some w \<Longrightarrow>
   run_task eng w task s = task_body eng w task s"
  by (simp add: run_task_def linc_Loreline_ensureHaxeThread_def Let_def)

lemma quiet_call:
  "engine_call_uncaught quiet_engine w c s =
     Inr (HxNull, s\<lparr>engine_trace := engine_trace s @ [c]\<rparr>)"
  by (simp add: engine_call_uncaught_def engine_do_def quiet_engine_def)

text \<open>
  Claim C3, as the code has it. The destructor of the worker sets the stop flag, wakes the
  worker and joins it. The worker leaves its loop only when the flag is up and the queue is
  empty: so, with closures that keep the scheduler, it first runs every closure still in
  the queue, front first, and the destructor returns after the last of them (or the first
  exception ends the process). Nothing that was queued is dropped. With an empty queue the
  worker leaves at once.
\<close>

theorem C3_shutdown_drains_queue:
  assumes "keeps_scheduler run" and "thread s = Some th"
  shows "Thread_delete run s =
           Some (case drain run (th\<lparr>stopFlag := True\<rparr>) (taskQueue th)
                        (s\<lparr>thread := Some (th\<lparr>stopFlag := True\<rparr>)\<rparr>) of
                   Inl e \<Rightarrow> Inl e
                 | Inr s1 \<Rightarrow> Inr (s1\<lparr>live_threads := live_threads s1 - {workerThread th}\<rparr>))
       \<and> (taskQueue th = [] \<longrightarrow>
            Thread_delete run s =
              Some (Inr (s\<lparr>thread := Some (th\<lparr>stopFlag := True\<rparr>),
                         live_threads := live_threads s - {workerThread th}\<rparr>)))"
  using Thread_delete_drains [OF assms] by simp

text \<open>
  The theorem at work: the worker is deleted with one collection in its queue. The
  collection runs, on the worker's thread 1, before the destructor returns.
\<close>

theorem C3_shutdown_drains_queue_witness:
  "Thread_delete (run_task quiet_engine) gc_queued =
     Some (Inr (bridge0\<lparr>didCallHaxeMain := True, haxeThreadId := Some 1,
                  useInternalThread := True,
                  thread := Some \<lparr>workerThread = 1, taskQueue = [], stopFlag = True\<rparr>,
                  engine_trace := [Eng_hxRunLibrary, Eng_InternalCollect]\<rparr>))"
proof -
  have th: "thread gc_queued =
            Some \<lparr>workerThread = 1, taskQueue = [Plain T_gc], stopFlag = False\<rparr>"
    by (simp add: gc_queued_def)
  show ?thesis
    using C3_shutdown_drains_queue [OF run_task_keeps_scheduler th]
    by (simp add: run_task_first run_task_home quiet_call gc_queued_def started_def bridge0_def)
qed

text \<open>
  The claim as written says the queued actions are not run. Here a worker is created, a
  collection is queued behind it, and the bridge is disposed of before the worker has taken
  it: when \<^verbatim>\<open>Loreline_dispose\<close> returns, the engine has been asked to collect.
\<close>

theorem C3_queued_action_runs_at_shutdown_counterexample:
  "Loreline_gc quiet_engine 0 (Loreline_createThread 1 bridge0) = Inr gc_queued
   \<and> Loreline_dispose quiet_engine 0 gc_queued =
       Some (Inr (bridge0\<lparr>didCallHaxeMain := True, haxeThreadId := Some 1,
                    engine_trace := [Eng_hxRunLibrary, Eng_InternalCollect]\<rparr>))"
proof -
  have queued: "Loreline_gc quiet_engine 0 (Loreline_createThread 1 bridge0) = Inr gc_queued"
    unfolding createThread_bridge0
    by (simp add: Loreline_gc_def linc_Loreline_schedule_def
        Thread_schedule_def started_def gc_queued_def bridge0_def)
  let ?th = "\<lparr>workerThread = 1, taskQueue = [Plain T_gc, Plain T_dispose], stopFlag = False\<rparr>"
  let ?s1 = "gc_queued\<lparr>thread := Some ?th\<rparr>"
  have pushed: "linc_Loreline_schedule (run_task quiet_engine) 0 T_dispose gc_queued = Inr ?s1"
    by (simp add: linc_Loreline_schedule_def Thread_schedule_def started_def gc_queued_def
        bridge0_def)
  have th: "thread ?s1 = Some ?th" by simp
  have joined: "Thread_delete (run_task quiet_engine) ?s1 =
      Some (Inr (bridge0\<lparr>didCallHaxeMain := True, haxeThreadId := Some 1,
                   useInternalThread := True,
                   thread := Some \<lparr>workerThread = 1, taskQueue = [], stopFlag = True\<rparr>,
                   engine_trace := [Eng_hxRunLibrary, Eng_InternalCollect]\<rparr>))"
    unfolding Thread_delete_drains [OF run_task_keeps_scheduler th]
    by (simp add: run_task_first run_task_home quiet_call gc_queued_def started_def bridge0_def)
  show ?thesis
    using queued pushed joined by (simp add: Loreline_dispose_def bridge0_def)
qed

section \<open>The states the bridge reaches\<close>

text \<open>
  Two facts hold in every state the bridge reaches. The statics that say whether a worker
  is in use agree with the threads that are alive (\<open>reachable_one_worker\<close>). And the
  queue of the worker holds no wrapper of a synchronous call
  (\<open>reachable_plain_queue\<close>): a synchronous call returns only after the worker has run
  its wrapper, and with it the whole queue.
\<close>

lemma createThread_active: "useInternalThread s \<Longrightarrow> Loreline_createThread w s = s"
  by (simp add: Loreline_createThread_def)

lemma createThread_fresh:
  "\<not> useInternalThread s \<Longrightarrow>
   Loreline_createThread w s =
     s\<lparr>useInternalThread := True,
       thread := Some \<lparr>workerThread = w, taskQueue = [], stopFlag = False\<rparr>,
       live_threads := insert w (live_threads s)\<rparr>"
  by (simp add: Loreline_createThread_def Thread_new_def)

lemma dispose_one_worker:
  assumes "one_worker s" and "Loreline_dispose eng caller s = Some (Inr s1)"
  shows "thread s1 = None \<and> \<not> useInternalThread s1 \<and> live_threads s1 = {}"
proof (cases "thread s")
  case None
  then have idle: "\<not> useInternalThread s" "live_threads s = {}"
    using assms(1) by (simp_all add: one_worker_def)
  have "linc_Loreline_schedule (run_task eng) caller T_dispose s = run_task eng caller T_dispose s"
    using idle by (simp add: linc_Loreline_schedule_def)
  then have "run_task eng caller T_dispose s = Inr s1"
    using assms(2) None run_task_frame [of eng caller T_dispose s]
    by (auto simp: Loreline_dispose_def same_scheduler_def split: sum.splits if_splits option.splits)
  then show ?thesis
    using run_task_frame [of eng caller T_dispose s s1] None idle
    by (simp add: same_scheduler_def)
next
  case (Some th)
  then have act: "useInternalThread s" "live_threads s = {workerThread th}"
    using assms(1) by (simp_all add: one_worker_def)
  let ?th = "th\<lparr>taskQueue := taskQueue th @ [Plain T_dispose]\<rparr>"
  let ?s = "s\<lparr>thread := Some ?th\<rparr>"
  have pushed: "linc_Loreline_schedule (run_task eng) caller T_dispose s = Inr ?s"
    using Some act by (simp add: linc_Loreline_schedule_def Thread_schedule_def)
  have th: "thread ?s = Some ?th" by simp
  let ?d = "drain (run_task eng) (?th\<lparr>stopFlag := True\<rparr>) (taskQueue ?th)
              (?s\<lparr>thread := Some (?th\<lparr>stopFlag := True\<rparr>)\<rparr>)"
  from assms(2) obtain s2 where d: "?d = Inr s2"
    and s1: "s1 = s2\<lparr>live_threads := live_threads s2 - {workerThread th}, thread := None,
                     useInternalThread := False\<rparr>"
    unfolding Loreline_dispose_def pushed
    using Thread_delete_drains [OF run_task_keeps_scheduler th]
    by (auto split: sum.splits)
  have "live_threads s2 = {workerThread th}"
    using drain_same [OF run_task_keeps_scheduler d] act by simp
  then show ?thesis
    using s1 by simp
qed

lemma scheduleSync_drains:
  assumes "keeps_scheduler run"
    and "useInternalThread s" and "thread s = Some th" and "caller \<noteq> workerThread th"
    and fresh: "\<forall>t. Wrapped t (next_sync s) \<notin> set (taskQueue th)"
  shows "linc_Loreline_scheduleSync run caller task s =
           Some (drain run th (taskQueue th @ [Wrapped task (next_sync s)])
                   (s\<lparr>next_sync := Suc (next_sync s), completed := completed s - {next_sync s}\<rparr>))"
proof -
  let ?k = "next_sync s"
  let ?th = "th\<lparr>taskQueue := taskQueue th @ [Wrapped task ?k]\<rparr>"
  let ?s = "s\<lparr>next_sync := Suc ?k, completed := completed s - {?k}, thread := Some ?th\<rparr>"
  have "await run ?k ?s = Some (drain run ?th (taskQueue th @ [Wrapped task ?k]) ?s)"
    by (rule await_wrapped [OF assms(1)]) (use fresh in simp_all)
  also have "drain run ?th (taskQueue th @ [Wrapped task ?k]) ?s
      = drain run th (taskQueue th @ [Wrapped task ?k])
           (s\<lparr>next_sync := Suc ?k, completed := completed s - {?k}\<rparr>)"
    unfolding drain_taskQueue by (cases "taskQueue th") simp_all
  finally show ?thesis
    using assms by (simp add: linc_Loreline_scheduleSync_def Thread_scheduleSync_def Let_def)
qed

lemma worker_rel_refl: "worker_rel s s"
  by (simp add: worker_rel_def)

lemma worker_rel_trans: "worker_rel s s1 \<Longrightarrow> worker_rel s1 s2 \<Longrightarrow> worker_rel s s2"
  by (simp add: worker_rel_def)

lemma same_scheduler_worker_rel: "same_scheduler s s1 \<Longrightarrow> worker_rel s s1"
  by (simp add: same_scheduler_def worker_rel_def)

lemma worker_rel_one_worker: "one_worker s \<Longrightarrow> worker_rel s s1 \<Longrightarrow> one_worker s1"
  by (auto simp: one_worker_def worker_rel_def split: option.splits)

lemma run_queued_worker_rel:
  "keeps_scheduler run \<Longrightarrow> run_queued run w q s = Inr s1 \<Longrightarrow> worker_rel s s1"
  using run_queued_same [of run w q s s1] by (simp add: worker_rel_def)

lemma turn_worker_rel:
  "keeps_scheduler run \<Longrightarrow> threadLoop_turn run s = Ran (Inr s1) \<Longrightarrow> worker_rel s s1"
  by (auto simp: threadLoop_turn_def worker_rel_def split: option.splits if_splits
      dest!: run_queued_worker_rel)

lemma await_worker_rel_aux:
  assumes major: "await run0 k0 s0 = Some r0"
  shows "keeps_scheduler run0 \<longrightarrow> (\<forall>s1. r0 = Inr s1 \<longrightarrow> worker_rel s0 s1)"
proof (rule await.raw_induct
    [where P = "\<lambda>run k s r. keeps_scheduler run \<longrightarrow> (\<forall>s1. r = Inr s1 \<longrightarrow> worker_rel s s1)",
     OF _ major])
  fix aw :: "(('a, 'b) runner) \<Rightarrow> nat \<Rightarrow> ('a, 'b) bridge \<Rightarrow> (exn + ('a, 'b) bridge) option"
    and run k s r
  assume IH: "\<And>k s b y. aw k s b = Some y \<Longrightarrow>
                keeps_scheduler k \<longrightarrow> (\<forall>s1. y = Inr s1 \<longrightarrow> worker_rel b s1)"
    and body: "(if k \<in> completed s then Some (Inr s)
      else case threadLoop_turn run s of Ran (Inl e) \<Rightarrow> Some (Inl e)
           | Ran (Inr s1) \<Rightarrow> aw run k s1 | _ \<Rightarrow> None) = Some r"
  show "keeps_scheduler run \<longrightarrow> (\<forall>s1. r = Inr s1 \<longrightarrow> worker_rel s s1)"
  proof (intro impI allI)
    fix s1 assume K: "keeps_scheduler run" and r: "r = Inr s1"
    show "worker_rel s s1"
    proof (cases "k \<in> completed s")
      case True
      then show ?thesis using body r by (simp add: worker_rel_refl)
    next
      case False
      then obtain s2 where t: "threadLoop_turn run s = Ran (Inr s2)" and a: "aw run k s2 = Some r"
        using body r by (auto split: turn.splits sum.splits)
      have "worker_rel s s2" using turn_worker_rel [OF K t] .
      moreover have "worker_rel s2 s1" using IH [OF a] K r by simp
      ultimately show ?thesis by (rule worker_rel_trans)
    qed
  qed
qed

lemma await_worker_rel:
  "keeps_scheduler run \<Longrightarrow> await run k s = Some (Inr s1) \<Longrightarrow> worker_rel s s1"
  using await_worker_rel_aux by blast

lemma schedule_worker_rel:
  "linc_Loreline_schedule (run_task eng) caller task s = Inr s1 \<Longrightarrow> worker_rel s s1"
  by (auto simp: linc_Loreline_schedule_def Thread_schedule_def worker_rel_def
      split: if_splits dest!: run_task_frame same_scheduler_worker_rel)

lemma scheduleSync_worker_rel:
  "linc_Loreline_scheduleSync (run_task eng) caller task s = Some (Inr s1) \<Longrightarrow> worker_rel s s1"
proof -
  assume a: "linc_Loreline_scheduleSync (run_task eng) caller task s = Some (Inr s1)"
  show ?thesis
  proof (cases "useInternalThread s \<and> thread s \<noteq> None")
    case False
    then have "run_task eng caller task s = Inr s1"
      using a by (auto simp: linc_Loreline_scheduleSync_def)
    then show ?thesis
      by (auto dest!: run_task_frame same_scheduler_worker_rel)
  next
    case True
    then obtain th where th: "thread s = Some th" by auto
    let ?s = "s\<lparr>next_sync := Suc (next_sync s), completed := completed s - {next_sync s},
                 thread := Some (th\<lparr>taskQueue := taskQueue th @ [Wrapped task (next_sync s)]\<rparr>)\<rparr>"
    have "await (run_task eng) (next_sync s) ?s = Some (Inr s1)"
      using a True th
      by (auto simp: linc_Loreline_scheduleSync_def Thread_scheduleSync_def Let_def
          split: if_splits)
    then have "worker_rel ?s s1"
      by (rule await_worker_rel [OF run_task_keeps_scheduler])
    moreover have "worker_rel s ?s"
      using th by (simp add: worker_rel_def)
    ultimately show ?thesis
      using worker_rel_trans by blast
  qed
qed

lemma returning_worker_rel:
  "returning f (linc_Loreline_scheduleSync (run_task eng) caller task s0) = Some (Inr (r, s1)) \<Longrightarrow>
   worker_rel s s0 \<Longrightarrow> worker_rel s s1"
  by (auto simp: returning_def split: option.splits sum.splits
      dest!: scheduleSync_worker_rel intro: worker_rel_trans)

lemma result_worker_rel: "worker_rel s (s\<lparr>result := r\<rparr>)"
  by (simp add: worker_rel_def)

lemma run_saved_worker_rel:
  "run_saved run_func caller fs s = Inr s1 \<Longrightarrow> worker_rel s s1"
proof (induction fs arbitrary: s)
  case Nil
  then show ?case by (simp add: worker_rel_refl)
next
  case (Cons f fs)
  then show ?case
    by (auto split: sum.splits dest!: run_func_frame same_scheduler_worker_rel
        intro: worker_rel_trans)
qed

lemma flush_worker_rel: "flush run_func caller s = Inr s1 \<Longrightarrow> worker_rel s s1"
proof -
  assume a: "flush run_func caller s = Inr s1"
  show ?thesis
  proof (cases "dispatchOutFunctions s = []")
    case True
    then show ?thesis using a by (simp add: flush_def worker_rel_refl)
  next
    case False
    then have "run_saved run_func caller (dispatchOutFunctions s)
                 (s\<lparr>dispatchOutFunctions := []\<rparr>) = Inr s1"
      using a by (simp add: flush_def Let_def)
    then have "worker_rel (s\<lparr>dispatchOutFunctions := []\<rparr>) s1"
      by (rule run_saved_worker_rel)
    then show ?thesis by (simp add: worker_rel_def)
  qed
qed

lemma advance_worker_rel: "linc_advance eng caller s = Inr s1 \<Longrightarrow> worker_rel s s1"
  by (auto simp: linc_advance_def worker_rel_refl split: option.splits sum.splits
      dest!: setPendingCallback_frame same_scheduler_worker_rel schedule_worker_rel
      intro: worker_rel_trans)

lemma select_worker_rel: "linc_select eng caller i s = Inr s1 \<Longrightarrow> worker_rel s s1"
  by (auto simp: linc_select_def worker_rel_refl split: option.splits sum.splits
      dest!: setPendingCallback_frame same_scheduler_worker_rel schedule_worker_rel
      intro: worker_rel_trans)

lemma play_worker_rel:
  "Loreline_play eng caller script onDialogue onChoice onFinish beatName tr ud s = Inr (r, s1)
   \<Longrightarrow> worker_rel s s1"
  by (auto simp: Loreline_play_def new_Interpreter_def Let_def worker_rel_refl
      split: option.splits sum.splits dest!: schedule_worker_rel)
     (simp add: worker_rel_def)

lemma resume_worker_rel:
  "Loreline_resume eng caller script onDialogue onChoice onFinish saveData beatName tr ud s
     = Inr (r, s1) \<Longrightarrow> worker_rel s s1"
  by (auto simp: Loreline_resume_def new_Interpreter_def Let_def worker_rel_refl
      split: option.splits sum.splits if_splits dest!: schedule_worker_rel)
     (simp add: worker_rel_def)

lemma sync_call_worker_rel:
  assumes "returning f (linc_Loreline_scheduleSync (run_task eng) caller task
             (s\<lparr>result := x\<rparr>)) = Some (Inr (r, s1))"
  shows "worker_rel s s1"
  by (rule returning_worker_rel [OF assms result_worker_rel])

lemma reachable_one_worker: "reachable eng s \<Longrightarrow> one_worker s"
proof (induction rule: reachable.induct)
  case initial
  show ?case by (simp add: one_worker_def bridge0_def)
next
  case (createThread s w)
  then show ?case
    by (cases "useInternalThread s")
       (auto simp: createThread_active createThread_fresh one_worker_def split: option.splits)
next
  case (init s caller s1)
  then show ?case
    by (auto simp: Loreline_init_def dest!: scheduleSync_worker_rel intro: worker_rel_one_worker)
next
  case (dispose s caller s1)
  then show ?case
    using dispose_one_worker [of s eng caller s1] by (simp add: one_worker_def)
next
  case (gc s caller s1)
  then show ?case
    by (auto simp: Loreline_gc_def dest!: schedule_worker_rel intro: worker_rel_one_worker)
next
  case (parse s caller input filePath fileHandler fileHandlerData r s1)
  then show ?case
    by (auto simp: Loreline_parse_def dest!: sync_call_worker_rel intro: worker_rel_one_worker)
next
  case (extractTranslations s caller script r s1)
  then show ?case
    by (cases script)
       (auto simp: Loreline_extractTranslations_def dest!: sync_call_worker_rel
        intro: worker_rel_one_worker)
next
  case (releaseTranslations s caller tr s1)
  then show ?case
    by (cases tr)
       (auto simp: Loreline_releaseTranslations_def dest!: schedule_worker_rel
        intro: worker_rel_one_worker)
next
  case (play s caller script onDialogue onChoice onFinish beatName tr ud r s1)
  then show ?case
    by (auto dest!: play_worker_rel intro: worker_rel_one_worker)
next
  case (resume s caller script onDialogue onChoice onFinish saveData beatName tr ud r s1)
  then show ?case
    by (auto dest!: resume_worker_rel intro: worker_rel_one_worker)
next
  case (start s caller interp beatName s1)
  then show ?case
    by (cases interp)
       (auto simp: Loreline_start_def dest!: schedule_worker_rel intro: worker_rel_one_worker)
next
  case (save s caller interp str s1)
  then show ?case
    by (cases interp)
       (auto simp: Loreline_save_def dest!: sync_call_worker_rel intro: worker_rel_one_worker)
next
  case (restore s caller interp saveData s1)
  then show ?case
    by (cases interp)
       (auto simp: Loreline_restore_def split: if_splits dest!: schedule_worker_rel
        intro: worker_rel_one_worker)
next
  case (getCharacterField s caller interp character field v s1)
  then show ?case
    by (cases interp; cases character; cases field)
       (auto simp: Loreline_getCharacterField_def dest!: sync_call_worker_rel
        intro: worker_rel_one_worker)
next
  case (setCharacterField s caller interp character field v s1)
  then show ?case
    by (cases interp; cases character; cases field)
       (auto simp: Loreline_setCharacterField_def dest!: schedule_worker_rel
        intro: worker_rel_one_worker)
next
  case (printScript s caller script str s1)
  then show ?case
    by (cases script)
       (auto simp: Loreline_printScript_def dest!: sync_call_worker_rel
        intro: worker_rel_one_worker)
next
  case (releaseScript s caller script s1)
  then show ?case
    by (cases script)
       (auto simp: Loreline_releaseScript_def dest!: schedule_worker_rel
        intro: worker_rel_one_worker)
next
  case (releaseInterpreter s caller interp s1)
  then show ?case
    by (cases interp)
       (auto simp: Loreline_releaseInterpreter_def dest!: schedule_worker_rel
        intro: worker_rel_one_worker)
next
  case (advance s caller s1)
  then show ?case
    by (auto dest!: advance_worker_rel intro: worker_rel_one_worker)
next
  case (select s caller i s1)
  then show ?case
    by (auto dest!: select_worker_rel intro: worker_rel_one_worker)
next
  case (flush s caller s1)
  then show ?case
    by (auto dest!: flush_worker_rel intro: worker_rel_one_worker)
next
  case (worker s s1)
  then show ?case
    by (auto dest!: turn_worker_rel [OF run_task_keeps_scheduler] intro: worker_rel_one_worker)
qed


lemma plain_queue_same: "same_scheduler s s1 \<Longrightarrow> plain_queue s \<Longrightarrow> plain_queue s1"
  by (simp add: same_scheduler_def plain_queue_def)

lemma plain_queue_no_wrapped:
  "plain_queue s \<Longrightarrow> thread s = Some th \<Longrightarrow> Wrapped t k \<notin> set (taskQueue th)"
  by (auto simp: plain_queue_def list_all_iff split: queued.splits)

lemma schedule_plain_queue:
  "plain_queue s \<Longrightarrow> linc_Loreline_schedule (run_task eng) caller task s = Inr s1 \<Longrightarrow>
   plain_queue s1"
  by (auto simp: linc_Loreline_schedule_def Thread_schedule_def plain_queue_def
      split: if_splits option.splits dest!: run_task_frame plain_queue_same)

lemma scheduleSync_result:
  assumes "keeps_scheduler run" and "plain_queue s"
    and "useInternalThread s" and "thread s = Some th" and "caller \<noteq> workerThread th"
  shows "linc_Loreline_scheduleSync run caller task s =
           Some (drain run th (taskQueue th @ [Wrapped task (next_sync s)])
                   (s\<lparr>next_sync := Suc (next_sync s), completed := completed s - {next_sync s}\<rparr>))"
  using plain_queue_no_wrapped [OF assms(2) assms(4)]
  by (intro scheduleSync_drains assms) simp

lemma scheduleSync_plain_queue:
  assumes "plain_queue s"
    and "linc_Loreline_scheduleSync (run_task eng) caller task s = Some (Inr s1)"
  shows "plain_queue s1"
proof (cases "useInternalThread s \<and> thread s \<noteq> None")
  case False
  then have "run_task eng caller task s = Inr s1"
    using assms(2) by (auto simp: linc_Loreline_scheduleSync_def)
  then show ?thesis
    using assms(1) by (auto dest!: run_task_frame intro: plain_queue_same)
next
  case True
  then obtain th where th: "thread s = Some th" by auto
  have ne: "caller \<noteq> workerThread th"
    using assms(2) True th
    by (auto simp: linc_Loreline_scheduleSync_def Thread_scheduleSync_def Let_def split: if_splits)
  have d: "drain (run_task eng) th (taskQueue th @ [Wrapped task (next_sync s)])
             (s\<lparr>next_sync := Suc (next_sync s), completed := completed s - {next_sync s}\<rparr>)
           = Inr s1"
    using scheduleSync_result [OF run_task_keeps_scheduler assms(1) _ th ne, where task = task] True assms(2)
    by simp
  show ?thesis
    using drain_same [OF run_task_keeps_scheduler d] by (simp add: plain_queue_def)
qed

lemma sync_call_plain_queue:
  assumes "plain_queue s"
    and "returning f (linc_Loreline_scheduleSync (run_task eng) caller task
             (s\<lparr>result := x\<rparr>)) = Some (Inr (r, s1))"
  shows "plain_queue s1"
proof -
  have p: "plain_queue (s\<lparr>result := x\<rparr>)"
    using assms(1) by (simp add: plain_queue_def)
  from assms(2) have "linc_Loreline_scheduleSync (run_task eng) caller task (s\<lparr>result := x\<rparr>)
      = Some (Inr s1)"
    by (auto simp: returning_def split: option.splits sum.splits)
  then show ?thesis by (rule scheduleSync_plain_queue [OF p])
qed

lemma turn_plain_queue:
  "plain_queue s \<Longrightarrow> threadLoop_turn (run_task eng) s = Ran (Inr s1) \<Longrightarrow> plain_queue s1"
proof -
  assume p: "plain_queue s" and t: "threadLoop_turn (run_task eng) s = Ran (Inr s1)"
  from t obtain th where th: "thread s = Some th" and ne: "taskQueue th \<noteq> []"
    and r: "run_queued (run_task eng) (workerThread th) (hd (taskQueue th))
              (s\<lparr>thread := Some (th\<lparr>taskQueue := tl (taskQueue th)\<rparr>)\<rparr>) = Inr s1"
    by (auto simp: threadLoop_turn_def split: option.splits if_splits)
  have "thread s1 = Some (th\<lparr>taskQueue := tl (taskQueue th)\<rparr>)"
    using run_queued_same [OF run_task_keeps_scheduler r] by simp
  then show ?thesis
    using p th ne by (cases "taskQueue th") (auto simp: plain_queue_def)
qed

lemma run_saved_frame:
  "run_saved run_func caller fs s = Inr s1 \<Longrightarrow> same_scheduler s s1"
proof (induction fs arbitrary: s)
  case Nil
  then show ?case by (simp add: same_scheduler_refl)
next
  case (Cons f fs)
  then show ?case
    by (auto split: sum.splits dest!: run_func_frame intro: same_scheduler_trans)
qed

lemma flush_plain_queue: "plain_queue s \<Longrightarrow> flush run_func caller s = Inr s1 \<Longrightarrow> plain_queue s1"
  by (auto simp: flush_def Let_def plain_queue_def same_scheduler_def
      split: if_splits dest!: run_saved_frame)

lemma advance_plain_queue:
  "plain_queue s \<Longrightarrow> linc_advance eng caller s = Inr s1 \<Longrightarrow> plain_queue s1"
  by (auto simp: linc_advance_def split: option.splits sum.splits
      dest!: setPendingCallback_frame dest: plain_queue_same schedule_plain_queue)

lemma select_plain_queue:
  "plain_queue s \<Longrightarrow> linc_select eng caller i s = Inr s1 \<Longrightarrow> plain_queue s1"
  by (auto simp: linc_select_def split: option.splits sum.splits
      dest!: setPendingCallback_frame dest: plain_queue_same schedule_plain_queue)

lemma play_plain_queue:
  "plain_queue s \<Longrightarrow>
   Loreline_play eng caller script onDialogue onChoice onFinish beatName tr ud s = Inr (r, s1)
   \<Longrightarrow> plain_queue s1"
  by (auto simp: Loreline_play_def new_Interpreter_def Let_def
      split: option.splits sum.splits
      elim!: schedule_plain_queue [rotated])
     (simp add: plain_queue_def)

lemma resume_plain_queue:
  "plain_queue s \<Longrightarrow>
   Loreline_resume eng caller script onDialogue onChoice onFinish saveData beatName tr ud s
     = Inr (r, s1) \<Longrightarrow> plain_queue s1"
  by (auto simp: Loreline_resume_def new_Interpreter_def Let_def
      split: option.splits sum.splits if_splits
      elim!: schedule_plain_queue [rotated])
     (simp add: plain_queue_def)

lemma dispose_plain_queue:
  assumes "reachable eng s" and "Loreline_dispose eng caller s = Some (Inr s1)"
  shows "plain_queue s1"
  using dispose_one_worker [OF reachable_one_worker [OF assms(1)] assms(2)]
  by (simp add: plain_queue_def)

lemma reachable_plain_queue: "reachable eng s \<Longrightarrow> plain_queue s"
proof (induction rule: reachable.induct)
  case initial
  show ?case by (simp add: plain_queue_def bridge0_def)
next
  case (createThread s w)
  then show ?case
    by (cases "useInternalThread s")
       (auto simp: createThread_active createThread_fresh plain_queue_def)
next
  case (init s caller s1)
  then show ?case
    by (auto simp: Loreline_init_def dest: scheduleSync_plain_queue)
next
  case (dispose s caller s1)
  then show ?case
    by (auto dest: dispose_plain_queue)
next
  case (gc s caller s1)
  then show ?case
    by (auto simp: Loreline_gc_def dest: schedule_plain_queue)
next
  case (parse s caller input filePath fileHandler fileHandlerData r s1)
  then show ?case
    by (auto simp: Loreline_parse_def dest: sync_call_plain_queue)
next
  case (extractTranslations s caller script r s1)
  then show ?case
    by (cases script)
       (auto simp: Loreline_extractTranslations_def dest: sync_call_plain_queue)
next
  case (releaseTranslations s caller tr s1)
  then show ?case
    by (cases tr)
       (auto simp: Loreline_releaseTranslations_def dest: schedule_plain_queue)
next
  case (play s caller script onDialogue onChoice onFinish beatName tr ud r s1)
  then show ?case
    by (auto dest: play_plain_queue)
next
  case (resume s caller script onDialogue onChoice onFinish saveData beatName tr ud r s1)
  then show ?case
    by (auto dest: resume_plain_queue)
next
  case (start s caller interp beatName s1)
  then show ?case
    by (cases interp)
       (auto simp: Loreline_start_def dest: schedule_plain_queue)
next
  case (save s caller interp str s1)
  then show ?case
    by (cases interp)
       (auto simp: Loreline_save_def dest: sync_call_plain_queue)
next
  case (restore s caller interp saveData s1)
  then show ?case
    by (cases interp)
       (auto simp: Loreline_restore_def split: if_splits dest: schedule_plain_queue)
next
  case (getCharacterField s caller interp character field v s1)
  then show ?case
    by (cases interp; cases character; cases field)
       (auto simp: Loreline_getCharacterField_def dest: sync_call_plain_queue)
next
  case (setCharacterField s caller interp character field v s1)
  then show ?case
    by (cases interp; cases character; cases field)
       (auto simp: Loreline_setCharacterField_def dest: schedule_plain_queue)
next
  case (printScript s caller script str s1)
  then show ?case
    by (cases script)
       (auto simp: Loreline_printScript_def dest: sync_call_plain_queue)
next
  case (releaseScript s caller script s1)
  then show ?case
    by (cases script)
       (auto simp: Loreline_releaseScript_def dest: schedule_plain_queue)
next
  case (releaseInterpreter s caller interp s1)
  then show ?case
    by (cases interp)
       (auto simp: Loreline_releaseInterpreter_def dest: schedule_plain_queue)
next
  case (advance s caller s1)
  then show ?case
    by (auto dest: advance_plain_queue)
next
  case (select s caller i s1)
  then show ?case
    by (auto dest: select_plain_queue)
next
  case (flush s caller s1)
  then show ?case
    by (auto dest: flush_plain_queue)
next
  case (worker s s1)
  then show ?case
    by (auto dest: turn_plain_queue)
qed


lemma drain_plain:
  "drain run th (map Plain ts @ behind) s =
     (case worker_runs run th ts behind s of
        Inl e \<Rightarrow> Inl e
      | Inr s1 \<Rightarrow> drain run th behind s1)"
  by (induction ts arbitrary: s) (auto split: sum.splits)

lemma drain_wrapped:
  "drain run th [Wrapped task k] s =
     (case run (workerThread th) task (s\<lparr>thread := Some (th\<lparr>taskQueue := []\<rparr>)\<rparr>) of
        Inl e \<Rightarrow> Inl e
      | Inr s1 \<Rightarrow> Inr (s1\<lparr>completed := insert k (completed s1)\<rparr>))"
  by (simp split: sum.splits)

lemma plain_closures:
  "list_all (\<lambda>q. case q of Plain t \<Rightarrow> True | Wrapped t k \<Rightarrow> False) qs \<Longrightarrow>
   map Plain (map closure qs) = qs"
  by (induction qs) (auto split: queued.splits)

lemma plain_queue_closures:
  "plain_queue s \<Longrightarrow> thread s = Some th \<Longrightarrow> taskQueue th = map Plain (map closure (taskQueue th))"
  using plain_closures [of "taskQueue th"] by (simp add: plain_queue_def)

lemma scheduleSync_runs:
  assumes "keeps_scheduler run"
    and "useInternalThread s" and "thread s = Some th" and "caller \<noteq> workerThread th"
    and "taskQueue th = map Plain ts"
  shows "linc_Loreline_scheduleSync run caller task s =
     Some (case worker_runs run th ts [Wrapped task (next_sync s)]
                  (s\<lparr>next_sync := Suc (next_sync s), completed := completed s - {next_sync s}\<rparr>) of
             Inl e \<Rightarrow> Inl e
           | Inr s1 \<Rightarrow>
               (case run (workerThread th) task (s1\<lparr>thread := Some (th\<lparr>taskQueue := []\<rparr>)\<rparr>) of
                  Inl e \<Rightarrow> Inl e
                | Inr s2 \<Rightarrow> Inr (s2\<lparr>completed := insert (next_sync s) (completed s2)\<rparr>)))"
proof -
  have fresh: "\<forall>t. Wrapped t (next_sync s) \<notin> set (taskQueue th)"
    using assms(5) by auto
  show ?thesis
    unfolding scheduleSync_drains [OF assms(1-4) fresh] assms(5) drain_plain drain_wrapped
    by (simp split: sum.splits)
qed


section \<open>The three ways a call is scheduled\<close>

text \<open>
  Claim C6. For every closure and both scheduling functions: with no worker in use the
  closure runs at once on the calling thread. With a worker in use, \<^verbatim>\<open>schedule\<close> only
  puts the closure at the back of the worker's queue, and a turn of the worker takes the
  closure at the front and runs it on the worker's thread. \<^verbatim>\<open>scheduleSync\<close>, called
  from a thread that is not the worker, returns what this leaves: the worker has run the
  tasks that were queued, first queued first, then the task of the call, all on its own
  thread, and has then set the flag of the call; the queue is empty. An exception of one of
  them is what the call ends with. The same is said with \<open>drain\<close> for any queue in which
  no closure uses the flag number of the call. In a state the bridge reaches the queue
  holds plain closures only, so there the flag number is always unused.
\<close>

theorem C6_schedule_modes:
  assumes "keeps_scheduler run"
  shows "(\<not> (useInternalThread s \<and> thread s \<noteq> None) \<longrightarrow>
            linc_Loreline_schedule run caller task s = run caller task s
          \<and> linc_Loreline_scheduleSync run caller task s = Some (run caller task s))
       \<and> (useInternalThread s \<and> thread s = Some th \<longrightarrow>
            linc_Loreline_schedule run caller task s =
              Inr (s\<lparr>thread := Some (th\<lparr>taskQueue := taskQueue th @ [Plain task]\<rparr>)\<rparr>))
       \<and> (thread s = Some th \<and> taskQueue th = Plain t # qs \<longrightarrow>
            threadLoop_turn run s =
              Ran (run (workerThread th) t (s\<lparr>thread := Some (th\<lparr>taskQueue := qs\<rparr>)\<rparr>)))
       \<and> (useInternalThread s \<and> thread s = Some th \<and> caller \<noteq> workerThread th
            \<and> taskQueue th = map Plain ts \<longrightarrow>
            linc_Loreline_scheduleSync run caller task s =
              Some (case worker_runs run th ts [Wrapped task (next_sync s)]
                           (s\<lparr>next_sync := Suc (next_sync s),
                              completed := completed s - {next_sync s}\<rparr>) of
                      Inl e \<Rightarrow> Inl e
                    | Inr s1 \<Rightarrow>
                        (case run (workerThread th) task
                                (s1\<lparr>thread := Some (th\<lparr>taskQueue := []\<rparr>)\<rparr>) of
                           Inl e \<Rightarrow> Inl e
                         | Inr s2 \<Rightarrow>
                             Inr (s2\<lparr>completed := insert (next_sync s) (completed s2)\<rparr>))))
       \<and> (useInternalThread s \<and> thread s = Some th \<and> caller \<noteq> workerThread th
            \<and> (\<forall>t. Wrapped t (next_sync s) \<notin> set (taskQueue th)) \<longrightarrow>
            linc_Loreline_scheduleSync run caller task s =
              Some (drain run th (taskQueue th @ [Wrapped task (next_sync s)])
                      (s\<lparr>next_sync := Suc (next_sync s),
                         completed := completed s - {next_sync s}\<rparr>))
          \<and> (\<forall>s1. linc_Loreline_scheduleSync run caller task s = Some (Inr s1) \<longrightarrow>
                 next_sync s \<in> completed s1 \<and> thread s1 = Some (th\<lparr>taskQueue := []\<rparr>)))
       \<and> (reachable eng b \<and> thread b = Some w \<longrightarrow>
            taskQueue w = map Plain (map closure (taskQueue w)))
       \<and> (reachable eng b \<and> useInternalThread b \<and> thread b = Some w
            \<and> caller \<noteq> workerThread w \<longrightarrow>
            linc_Loreline_scheduleSync (run_task eng) caller job b =
              Some (drain (run_task eng) w (taskQueue w @ [Wrapped job (next_sync b)])
                      (b\<lparr>next_sync := Suc (next_sync b),
                         completed := completed b - {next_sync b}\<rparr>)))"
proof -
  have inline: "\<not> (useInternalThread s \<and> thread s \<noteq> None) \<Longrightarrow>
            linc_Loreline_schedule run caller task s = run caller task s
          \<and> linc_Loreline_scheduleSync run caller task s = Some (run caller task s)"
    by (auto simp: linc_Loreline_schedule_def linc_Loreline_scheduleSync_def)
  have async: "useInternalThread s \<and> thread s = Some th \<Longrightarrow>
            linc_Loreline_schedule run caller task s =
              Inr (s\<lparr>thread := Some (th\<lparr>taskQueue := taskQueue th @ [Plain task]\<rparr>)\<rparr>)"
    by (simp add: linc_Loreline_schedule_def Thread_schedule_def)
  have turn: "threadLoop_turn run s =
              Ran (run (workerThread th) t (s\<lparr>thread := Some (th\<lparr>taskQueue := qs\<rparr>)\<rparr>))"
    if "thread s = Some th \<and> taskQueue th = Plain t # qs"
    using that by (simp add: threadLoop_turn_def)
  have runs: "linc_Loreline_scheduleSync run caller task s =
              Some (case worker_runs run th ts [Wrapped task (next_sync s)]
                           (s\<lparr>next_sync := Suc (next_sync s),
                              completed := completed s - {next_sync s}\<rparr>) of
                      Inl e \<Rightarrow> Inl e
                    | Inr s1 \<Rightarrow>
                        (case run (workerThread th) task
                                (s1\<lparr>thread := Some (th\<lparr>taskQueue := []\<rparr>)\<rparr>) of
                           Inl e \<Rightarrow> Inl e
                         | Inr s2 \<Rightarrow>
                             Inr (s2\<lparr>completed := insert (next_sync s) (completed s2)\<rparr>)))"
    if act: "useInternalThread s \<and> thread s = Some th \<and> caller \<noteq> workerThread th
            \<and> taskQueue th = map Plain ts"
    by (rule scheduleSync_runs [OF assms]) (use act in simp_all)
  have sync: "linc_Loreline_scheduleSync run caller task s =
              Some (drain run th (taskQueue th @ [Wrapped task (next_sync s)])
                      (s\<lparr>next_sync := Suc (next_sync s),
                         completed := completed s - {next_sync s}\<rparr>))"
    if act: "useInternalThread s \<and> thread s = Some th \<and> caller \<noteq> workerThread th
            \<and> (\<forall>t. Wrapped t (next_sync s) \<notin> set (taskQueue th))"
    by (rule scheduleSync_drains [OF assms]) (use act in simp_all)
  have fin: "next_sync s \<in> completed s1 \<and> thread s1 = Some (th\<lparr>taskQueue := []\<rparr>)"
    if act: "useInternalThread s \<and> thread s = Some th \<and> caller \<noteq> workerThread th
            \<and> (\<forall>t. Wrapped t (next_sync s) \<notin> set (taskQueue th))"
      and ret: "linc_Loreline_scheduleSync run caller task s = Some (Inr s1)" for s1
  proof -
    have d: "drain run th (taskQueue th @ [Wrapped task (next_sync s)])
                (s\<lparr>next_sync := Suc (next_sync s),
                   completed := completed s - {next_sync s}\<rparr>) = Inr s1"
      using sync [OF act] ret by simp
    show ?thesis
      using drain_completes [OF d] drain_same [OF assms d] by simp
  qed
  have plain: "taskQueue w = map Plain (map closure (taskQueue w))"
    if act: "reachable eng b \<and> thread b = Some w"
    using plain_queue_closures [OF reachable_plain_queue, of eng b w] act by blast
  have reached: "linc_Loreline_scheduleSync (run_task eng) caller job b =
              Some (drain (run_task eng) w (taskQueue w @ [Wrapped job (next_sync b)])
                      (b\<lparr>next_sync := Suc (next_sync b),
                         completed := completed b - {next_sync b}\<rparr>))"
    if act: "reachable eng b \<and> useInternalThread b \<and> thread b = Some w
            \<and> caller \<noteq> workerThread w"
  proof -
    have "plain_queue b"
      using act by (auto intro: reachable_plain_queue)
    then show ?thesis
      using act by (intro scheduleSync_result run_task_keeps_scheduler) simp_all
  qed
  show ?thesis
    using inline async turn runs sync fin plain reached by blast
qed

text \<open>
  The theorem at work, on thread 0 with the closures of the bridge. With no worker a
  collection runs inline on thread 0. With worker 1 it is only queued, and the bridge
  reaches that state; a turn of the worker then runs it on thread 1. A synchronous parse
  called instead returns after the worker has run the collection and then the parse, both
  on thread 1, and has set flag 0.
\<close>

theorem C6_schedule_modes_witness:
  "linc_Loreline_schedule (run_task quiet_engine) 0 T_gc bridge0 =
     Inr (bridge0\<lparr>didCallHaxeMain := True, haxeThreadId := Some 0,
            engine_trace := [Eng_hxRunLibrary, Eng_InternalCollect]\<rparr>)
   \<and> linc_Loreline_schedule (run_task quiet_engine) 0 T_gc started = Inr gc_queued
   \<and> reachable quiet_engine gc_queued
   \<and> threadLoop_turn (run_task quiet_engine) gc_queued =
       Ran (Inr (started\<lparr>didCallHaxeMain := True, haxeThreadId := Some 1,
                   engine_trace := [Eng_hxRunLibrary, Eng_InternalCollect]\<rparr>))
   \<and> linc_Loreline_scheduleSync (run_task quiet_engine) 0
         (T_parse (Some ''story'') None None None) gc_queued =
       Some (Inr (bridge0\<lparr>didCallHaxeMain := True, haxeThreadId := Some 1,
                    useInternalThread := True,
                    thread := Some \<lparr>workerThread = 1, taskQueue = [], stopFlag = False\<rparr>,
                    live_threads := {1}, next_sync := 1, completed := {0},
                    engine_trace := [Eng_hxRunLibrary, Eng_InternalCollect,
                                     Eng_parse (HxString ''story'') HxNull False]\<rparr>))"
proof -
  let ?th = "\<lparr>workerThread = 1, taskQueue = [Plain T_gc], stopFlag = False\<rparr>"
  have inline: "linc_Loreline_schedule (run_task quiet_engine) 0 T_gc bridge0 =
     Inr (bridge0\<lparr>didCallHaxeMain := True, haxeThreadId := Some 0,
            engine_trace := [Eng_hxRunLibrary, Eng_InternalCollect]\<rparr>)"
    using C6_schedule_modes [OF run_task_keeps_scheduler,
        where s = bridge0 and caller = 0 and task = T_gc, THEN conjunct1]
    by (simp add: run_task_first quiet_call bridge0_def)
  have async: "linc_Loreline_schedule (run_task quiet_engine) 0 T_gc started = Inr gc_queued"
    using C6_schedule_modes [OF run_task_keeps_scheduler,
        where s = started and caller = 0
        and task = T_gc and th = "\<lparr>workerThread = 1, taskQueue = [], stopFlag = False\<rparr>",
        THEN conjunct2, THEN conjunct1]
    by (simp add: started_def gc_queued_def bridge0_def)
  have r0: "reachable quiet_engine (started :: state)"
    unfolding createThread_bridge0 [symmetric]
    by (rule reachable.createThread [OF reachable.initial])
  have r: "reachable quiet_engine gc_queued"
    using async by (intro reachable.gc [OF r0, where caller = 0]) (simp add: Loreline_gc_def)
  have turn: "threadLoop_turn (run_task quiet_engine) gc_queued =
       Ran (Inr (started\<lparr>didCallHaxeMain := True, haxeThreadId := Some 1,
                   engine_trace := [Eng_hxRunLibrary, Eng_InternalCollect]\<rparr>))"
    using C6_schedule_modes [OF run_task_keeps_scheduler,
        where s = gc_queued and th = ?th and t = T_gc and qs = "[]",
        THEN conjunct2, THEN conjunct2, THEN conjunct1]
    by (simp add: run_task_first quiet_call started_def gc_queued_def bridge0_def)
  have sync: "linc_Loreline_scheduleSync (run_task quiet_engine) 0
         (T_parse (Some ''story'') None None None) gc_queued =
       Some (Inr (bridge0\<lparr>didCallHaxeMain := True, haxeThreadId := Some 1,
                    useInternalThread := True,
                    thread := Some \<lparr>workerThread = 1, taskQueue = [], stopFlag = False\<rparr>,
                    live_threads := {1}, next_sync := 1, completed := {0},
                    engine_trace := [Eng_hxRunLibrary, Eng_InternalCollect,
                                     Eng_parse (HxString ''story'') HxNull False]\<rparr>))"
    using C6_schedule_modes [OF run_task_keeps_scheduler,
        where s = gc_queued and caller = 0 and task = "T_parse (Some ''story'') None None None"
        and th = ?th and ts = "[T_gc]",
        THEN conjunct2, THEN conjunct2, THEN conjunct2, THEN conjunct1]
    by (simp add: run_task_first run_task_home quiet_call engine_do_def quiet_engine_def
        linc_toHxString_def strlen_def NUL_def IsNull_def Let_def
        started_def gc_queued_def bridge0_def)
  have sync_reached: "linc_Loreline_scheduleSync (run_task quiet_engine) 0 T_init gc_queued =
       Some (drain (run_task quiet_engine) ?th [Plain T_gc, Wrapped T_init 0]
               (gc_queued\<lparr>next_sync := 1, completed := {}\<rparr>))"
    using C6_schedule_modes [OF run_task_keeps_scheduler,
        where b = gc_queued and eng = quiet_engine and caller = 0 and job = T_init
        and w = ?th,
        THEN conjunct2, THEN conjunct2, THEN conjunct2, THEN conjunct2, THEN conjunct2,
        THEN conjunct2] r
    by (simp add: started_def gc_queued_def bridge0_def)
  show ?thesis
    using inline async r turn sync sync_reached by simp
qed


section \<open>The dispatch-out queue\<close>

lemma run_func_calls:
  "interpreters s (func_session f) \<noteq> None \<Longrightarrow>
   run_func c f s =
     Inr (s\<lparr>s_dispatchInterp := dispatched (s_dispatchInterp s) f,
            host_trace := host_trace s @ host_calls (interpreters s) f\<rparr>)"
  by (cases f) (auto split: option.splits)

lemma run_saved_calls:
  "\<forall>f\<in>set fs. interpreters s (func_session f) \<noteq> None \<Longrightarrow>
   run_saved run_func c fs s =
     Inr (s\<lparr>s_dispatchInterp := foldl dispatched (s_dispatchInterp s) fs,
            host_trace := host_trace s @ concat (map (host_calls (interpreters s)) fs)\<rparr>)"
proof (induction fs arbitrary: s)
  case Nil
  then show ?case by simp
next
  case (Cons f fs)
  let ?s1 = "s\<lparr>s_dispatchInterp := dispatched (s_dispatchInterp s) f,
               host_trace := host_trace s @ host_calls (interpreters s) f\<rparr>"
  have f: "run_func c f s = Inr ?s1"
    using Cons.prems by (simp add: run_func_calls)
  have "\<forall>g\<in>set fs. interpreters ?s1 (func_session g) \<noteq> None"
    using Cons.prems by simp
  from Cons.IH [OF this] show ?case
    by (simp add: f)
qed

lemma run_saved_append:
  "run_saved run caller (fs @ gs) s =
     (case run_saved run caller fs s of
        Inl e \<Rightarrow> Inl e
      | Inr s1 \<Rightarrow> run_saved run caller gs s1)"
  by (induction fs arbitrary: s) (auto split: sum.splits)

lemma flush_calls:
  assumes "\<forall>f\<in>set (dispatchOutFunctions s). interpreters s (func_session f) \<noteq> None"
  shows "flush run_func c s =
     Inr (s\<lparr>dispatchOutFunctions := [],
            s_dispatchInterp := foldl dispatched (s_dispatchInterp s) (dispatchOutFunctions s),
            host_trace := host_trace s
               @ concat (map (host_calls (interpreters s)) (dispatchOutFunctions s))\<rparr>)"
proof (cases "dispatchOutFunctions s = []")
  case True
  then show ?thesis by (simp add: flush_def)
next
  case False
  have "\<forall>f\<in>set (dispatchOutFunctions s).
          interpreters (s\<lparr>dispatchOutFunctions := []\<rparr>) (func_session f) \<noteq> None"
    using assms by simp
  from run_saved_calls [OF this, of c] False show ?thesis
    by (simp add: flush_def Let_def)
qed

text \<open>
  Claim C7. \<^verbatim>\<open>flush\<close> runs the callbacks that were in the buffer when it was called,
  starting from a state whose buffer is empty: whatever a callback adds goes to the new
  buffer, which this \<^verbatim>\<open>flush\<close> does not read again. They run first added first: running
  a list of callbacks and then a second list is running the two lists joined, and the
  first exception ends the run. With the closures of the bridge and every session of a
  buffered callback alive, \<^verbatim>\<open>flush\<close> makes the handler calls of the buffered callbacks
  in the order of the buffer and leaves the buffer empty. \<^verbatim>\<open>dispatchOut\<close> with no worker
  in use runs the callback at once on the calling thread and buffers nothing; with a
  worker in use it appends the callback to the buffer. In a state the bridge reaches, the
  flag \<^verbatim>\<open>dispatchOut\<close> reads is up exactly when there is a worker.
\<close>

theorem C7_flush_snapshot:
  "flush run caller s =
     run_saved run caller (dispatchOutFunctions s) (s\<lparr>dispatchOutFunctions := []\<rparr>)
   \<and> run_saved run caller (fs @ gs) s =
       (case run_saved run caller fs s of
          Inl e \<Rightarrow> Inl e
        | Inr s1 \<Rightarrow> run_saved run caller gs s1)
   \<and> ((\<forall>f\<in>set (dispatchOutFunctions b). interpreters b (func_session f) \<noteq> None) \<longrightarrow>
        flush run_func caller b =
          Inr (b\<lparr>dispatchOutFunctions := [],
                 s_dispatchInterp :=
                   foldl dispatched (s_dispatchInterp b) (dispatchOutFunctions b),
                 host_trace := host_trace b
                   @ concat (map (host_calls (interpreters b)) (dispatchOutFunctions b))\<rparr>))
   \<and> (\<not> useInternalThread s \<longrightarrow> linc_Loreline_dispatchOut run caller func s = run caller func s)
   \<and> (useInternalThread s \<longrightarrow>
        linc_Loreline_dispatchOut run caller func s =
          Inr (s\<lparr>dispatchOutFunctions := dispatchOutFunctions s @ [func]\<rparr>))
   \<and> (reachable eng b \<longrightarrow> useInternalThread b = (thread b \<noteq> None))"
proof -
  have snapshot: "flush run caller s =
     run_saved run caller (dispatchOutFunctions s) (s\<lparr>dispatchOutFunctions := []\<rparr>)"
    by (simp add: flush_def Let_def)
  have inline: "\<not> useInternalThread s \<longrightarrow>
      linc_Loreline_dispatchOut run caller func s = run caller func s"
    by (simp add: linc_Loreline_dispatchOut_def)
  have buffered: "useInternalThread s \<longrightarrow>
        linc_Loreline_dispatchOut run caller func s =
          Inr (s\<lparr>dispatchOutFunctions := dispatchOutFunctions s @ [func]\<rparr>)"
    by (simp add: linc_Loreline_dispatchOut_def add_def)
  have flag: "reachable eng b \<longrightarrow> useInternalThread b = (thread b \<noteq> None)"
    by (auto dest!: reachable_one_worker simp: one_worker_def split: option.splits)
  show ?thesis
    using snapshot run_saved_append [of run caller fs gs s] flush_calls [of b caller]
      inline buffered flag
    by blast
qed

text \<open>
  The theorem at work. With the callbacks \<open>relay\<close>, flushing the buffer 1, 2 runs 1 and
  then 2; the callbacks 11 and 12 they add are left in the buffer, not run. With the
  closures of the bridge, flushing \<open>two_lines\<close> calls the dialogue handler with the first
  line and then with the second. With no worker in use, dispatching 5 runs it at once (and
  what it adds is all the buffer holds); with a worker in use, 5 is buffered and not run.
  After \<^verbatim>\<open>Loreline_createThread\<close> the flag is up and there is a worker.
\<close>

theorem C7_flush_snapshot_witness:
  "flush relay 0 ((bridge0 :: (task, nat) bridge)
       \<lparr>useInternalThread := True, dispatchOutFunctions := [1, 2]\<rparr>) =
     Inr (bridge0\<lparr>useInternalThread := True, dispatchOutFunctions := [11, 12],
            engine_trace := [Eng_run 1, Eng_run 2]\<rparr>)
   \<and> list_all (\<lambda>f. interpreters two_lines (func_session f) \<noteq> None)
         (dispatchOutFunctions two_lines)
   \<and> flush run_func 0 two_lines =
       Inr (two_lines\<lparr>dispatchOutFunctions := [],
              host_trace := [Host_dialogue 7 1 None (Some ''one'') None 0 None,
                             Host_dialogue 7 1 None (Some ''two'') None 0 None]\<rparr>)
   \<and> linc_Loreline_dispatchOut relay 0 5 (bridge0 :: (task, nat) bridge) =
       Inr (bridge0\<lparr>dispatchOutFunctions := [15], engine_trace := [Eng_run 5]\<rparr>)
   \<and> linc_Loreline_dispatchOut relay 0 5
         ((bridge0 :: (task, nat) bridge)\<lparr>useInternalThread := True\<rparr>) =
       Inr (bridge0\<lparr>useInternalThread := True, dispatchOutFunctions := [5]\<rparr>)
   \<and> reachable quiet_engine (started :: state)
   \<and> useInternalThread (started :: state) \<and> thread (started :: state) \<noteq> None"
proof -
  let ?b = "bridge0 :: (task, nat) bridge"
  have a: "flush relay 0 (?b\<lparr>useInternalThread := True, dispatchOutFunctions := [1, 2]\<rparr>) =
     Inr (?b\<lparr>useInternalThread := True, dispatchOutFunctions := [11, 12],
            engine_trace := [Eng_run 1, Eng_run 2]\<rparr>)"
    using C7_flush_snapshot [where run = relay and caller = 0
        and s = "?b\<lparr>useInternalThread := True, dispatchOutFunctions := [1, 2]\<rparr>",
        THEN conjunct1]
    by (simp add: relay_def add_def bridge0_def)
  have live: "\<forall>f\<in>set (dispatchOutFunctions two_lines).
      interpreters two_lines (func_session f) \<noteq> None"
    by (simp add: two_lines_def pending_state_def)
  have b: "flush run_func 0 two_lines =
       Inr (two_lines\<lparr>dispatchOutFunctions := [],
              host_trace := [Host_dialogue 7 1 None (Some ''one'') None 0 None,
                             Host_dialogue 7 1 None (Some ''two'') None 0 None]\<rparr>)"
    using C7_flush_snapshot [where b = two_lines and caller = 0,
        THEN conjunct2, THEN conjunct2, THEN conjunct1, THEN mp, OF live]
    by (simp add: two_lines_def pending_state_def bridge0_def)
  have c: "linc_Loreline_dispatchOut relay 0 5 ?b =
       Inr (?b\<lparr>dispatchOutFunctions := [15], engine_trace := [Eng_run 5]\<rparr>)"
    using C7_flush_snapshot [where run = relay and caller = 0 and s = ?b and func = 5,
        THEN conjunct2, THEN conjunct2, THEN conjunct2, THEN conjunct1]
    by (simp add: relay_def add_def bridge0_def)
  have d: "linc_Loreline_dispatchOut relay 0 5 (?b\<lparr>useInternalThread := True\<rparr>) =
       Inr (?b\<lparr>useInternalThread := True, dispatchOutFunctions := [5]\<rparr>)"
    using C7_flush_snapshot [where run = relay and caller = 0
        and s = "?b\<lparr>useInternalThread := True\<rparr>" and func = 5,
        THEN conjunct2, THEN conjunct2, THEN conjunct2, THEN conjunct2, THEN conjunct1]
    by (simp add: bridge0_def)
  have r: "reachable quiet_engine (started :: state)"
    unfolding createThread_bridge0 [symmetric]
    by (rule reachable.createThread [OF reachable.initial])
  have e: "useInternalThread (started :: state) \<and> thread (started :: state) \<noteq> None"
    using C7_flush_snapshot [where b = started and eng = quiet_engine,
        THEN conjunct2, THEN conjunct2, THEN conjunct2, THEN conjunct2, THEN conjunct2,
        THEN mp, OF r]
    by (simp add: started_def)
  show ?thesis
    using a live b c d r e by (simp add: list_all_iff)
qed

section \<open>One worker at a time\<close>

text \<open>
  Claim C9, as the code has it. In every state the bridge reaches the statics agree with
  the live threads (\<open>one_worker\<close>), and still do after \<^verbatim>\<open>Loreline_createThread\<close>: at
  most one worker thread is alive, before and after. The call is idempotent. While a
  worker is in use it changes nothing at all. While none is in use it creates one, on a
  thread of its own: that is the first call, and also the first call after a
  \<^verbatim>\<open>Loreline_dispose\<close>, which joins the worker and clears both statics.
\<close>

theorem C9_one_worker_at_a_time:
  assumes "reachable eng s"
  shows "one_worker s
       \<and> one_worker (Loreline_createThread w s)
       \<and> card (live_threads s) \<le> 1
       \<and> card (live_threads (Loreline_createThread w s)) \<le> 1
       \<and> Loreline_createThread v (Loreline_createThread w s) = Loreline_createThread w s
       \<and> (useInternalThread s \<longrightarrow> Loreline_createThread w s = s)
       \<and> (\<not> useInternalThread s \<longrightarrow>
            Loreline_createThread w s =
              s\<lparr>useInternalThread := True,
                thread := Some \<lparr>workerThread = w, taskQueue = [], stopFlag = False\<rparr>,
                live_threads := {w}\<rparr>)
       \<and> (\<forall>s1. Loreline_dispose eng caller s = Some (Inr s1) \<longrightarrow>
              one_worker s1 \<and> thread s1 = None \<and> \<not> useInternalThread s1)"
proof -
  have ow: "one_worker s"
    using assms by (rule reachable_one_worker)
  have card0: "card (live_threads s) \<le> 1"
    using ow by (auto simp: one_worker_def split: option.splits)
  have inv: "one_worker (Loreline_createThread w s)"
    using reachable.createThread [OF assms] by (rule reachable_one_worker)
  then have card1: "card (live_threads (Loreline_createThread w s)) \<le> 1"
    by (auto simp: one_worker_def split: option.splits)
  have idem: "Loreline_createThread v (Loreline_createThread w s) = Loreline_createThread w s"
    by (cases "useInternalThread s") (simp_all add: createThread_active createThread_fresh)
  have fresh: "\<not> useInternalThread s \<Longrightarrow>
            Loreline_createThread w s =
              s\<lparr>useInternalThread := True,
                thread := Some \<lparr>workerThread = w, taskQueue = [], stopFlag = False\<rparr>,
                live_threads := {w}\<rparr>"
    using ow by (auto simp: createThread_fresh one_worker_def split: option.splits)
  have disp: "one_worker s1 \<and> thread s1 = None \<and> \<not> useInternalThread s1"
    if "Loreline_dispose eng caller s = Some (Inr s1)" for s1
    using dispose_one_worker [OF ow that] by (simp add: one_worker_def)
  show ?thesis
    using ow card0 inv card1 idem fresh disp createThread_active by blast
qed

text \<open>
  The theorem at work: the bridge reaches the initial state and the state after the first
  call, which creates worker 1; a second call changes nothing, and one thread is alive.
\<close>

theorem C9_one_worker_at_a_time_witness:
  "reachable quiet_engine (bridge0 :: state)
   \<and> reachable quiet_engine (started :: state)
   \<and> Loreline_createThread 1 (bridge0 :: state) = started
   \<and> Loreline_createThread 2 (started :: state) = started
   \<and> card (live_threads (started :: state)) \<le> 1"
proof -
  have idle: "reachable quiet_engine (bridge0 :: state)"
    by (rule reachable.initial)
  have busy: "reachable quiet_engine (started :: state)"
    unfolding createThread_bridge0 [symmetric] by (rule reachable.createThread [OF idle])
  show ?thesis
    using idle busy
          C9_one_worker_at_a_time [OF idle, where caller = 0]
          C9_one_worker_at_a_time [OF busy, where caller = 0]
    by (simp add: started_def bridge0_def)
qed

text \<open>
  The claim as written has a worker created on the first call only. Here the first call
  creates the worker on thread 1, \<^verbatim>\<open>Loreline_dispose\<close> joins it, and the next call
  creates a second worker, on thread 2.
\<close>

theorem C9_second_worker_after_dispose_counterexample:
  "Loreline_dispose quiet_engine 0 (Loreline_createThread 1 bridge0) =
     Some (Inr (bridge0\<lparr>didCallHaxeMain := True, haxeThreadId := Some 1,
                  engine_trace := [Eng_hxRunLibrary]\<rparr>))
   \<and> thread (Loreline_createThread 1 (bridge0 :: state)) =
       Some \<lparr>workerThread = 1, taskQueue = [], stopFlag = False\<rparr>
   \<and> thread (Loreline_createThread 2
               (bridge0\<lparr>didCallHaxeMain := True, haxeThreadId := Some 1,
                         engine_trace := [Eng_hxRunLibrary]\<rparr> :: state)) =
       Some \<lparr>workerThread = 2, taskQueue = [], stopFlag = False\<rparr>"
proof -
  let ?th = "\<lparr>workerThread = 1, taskQueue = [Plain T_dispose], stopFlag = False\<rparr>"
  let ?s1 = "(started :: state)\<lparr>thread := Some ?th\<rparr>"
  have pushed: "linc_Loreline_schedule (run_task quiet_engine) 0 T_dispose started = Inr ?s1"
    by (simp add: linc_Loreline_schedule_def Thread_schedule_def started_def bridge0_def)
  have th: "thread ?s1 = Some ?th" by simp
  have joined: "Thread_delete (run_task quiet_engine) ?s1 =
      Some (Inr (bridge0\<lparr>didCallHaxeMain := True, haxeThreadId := Some 1,
                   useInternalThread := True,
                   thread := Some \<lparr>workerThread = 1, taskQueue = [], stopFlag = True\<rparr>,
                   engine_trace := [Eng_hxRunLibrary]\<rparr>))"
    unfolding Thread_delete_drains [OF run_task_keeps_scheduler th]
    by (simp add: run_task_first started_def bridge0_def)
  have disposed: "Loreline_dispose quiet_engine 0 (Loreline_createThread 1 bridge0) =
     Some (Inr (bridge0\<lparr>didCallHaxeMain := True, haxeThreadId := Some 1,
                  engine_trace := [Eng_hxRunLibrary]\<rparr>))"
    unfolding createThread_bridge0
    using pushed joined by (simp add: Loreline_dispose_def bridge0_def)
  show ?thesis
    using disposed
    by (simp add: Loreline_createThread_def Thread_new_def bridge0_def)
qed

text \<open>
  The system may give a new worker the id of the one that was joined. The engine stays
  bound to the thread that first ran it: on a new worker with that id the thread check of
  \<^verbatim>\<open>linc_Loreline_ensureHaxeThread\<close> passes, on one with another id it throws.
\<close>

lemma worker_id_reused:
  "Loreline_init quiet_engine 0 (Loreline_createThread 1 disposed) =
     Some (Inr (disposed\<lparr>useInternalThread := True,
                  thread := Some \<lparr>workerThread = 1, taskQueue = [], stopFlag = False\<rparr>,
                  live_threads := {1}, next_sync := 1, completed := {0}\<rparr>))
   \<and> Loreline_init quiet_engine 0 (Loreline_createThread 2 disposed) = Some (Inl Wrong_thread)"
proof -
  let ?th = "\<lambda>w. \<lparr>workerThread = w, taskQueue = [], stopFlag = False\<rparr> :: task Loreline_Thread"
  have made: "Loreline_createThread w disposed =
      disposed\<lparr>useInternalThread := True, thread := Some (?th w), live_threads := {w}\<rparr>" for w
    by (simp add: createThread_fresh disposed_def bridge0_def)
  have same: "Loreline_init quiet_engine 0 (Loreline_createThread 1 disposed) =
     Some (Inr (disposed\<lparr>useInternalThread := True, thread := Some (?th 1),
                  live_threads := {1}, next_sync := 1, completed := {0}\<rparr>))"
    unfolding made Loreline_init_def
    using scheduleSync_runs [OF run_task_keeps_scheduler, where caller = 0 and th = "?th 1"
        and ts = "[]" and task = T_init
        and s = "disposed\<lparr>useInternalThread := True, thread := Some (?th 1),
                           live_threads := {1}\<rparr>"]
    by (simp add: run_task_home disposed_def bridge0_def)
  have other: "Loreline_init quiet_engine 0 (Loreline_createThread 2 disposed) =
     Some (Inl Wrong_thread)"
    unfolding made Loreline_init_def
    using scheduleSync_runs [OF run_task_keeps_scheduler, where caller = 0 and th = "?th 2"
        and ts = "[]" and task = T_init
        and s = "disposed\<lparr>useInternalThread := True, thread := Some (?th 2),
                           live_threads := {2}\<rparr>"]
    by (simp add: run_task_def linc_Loreline_ensureHaxeThread_def Let_def disposed_def bridge0_def)
  show ?thesis
    using same other by simp
qed


section \<open>The pending continuation\<close>

lemma setPendingCallback_live:
  assumes "interpreters s h = Some interp"
  shows "setPendingCallback h cb s =
           Inr (s\<lparr>interpreters := (interpreters s)(h \<mapsto> interp\<lparr>pendingCb := cb\<rparr>),
                  roots := (if cb \<noteq> None then insert (Interpreter_pendingCb h) (roots s)
                            else if pendingCb interp \<noteq> None
                              then roots s - {Interpreter_pendingCb h}
                            else roots s)\<rparr>)"
  using assms unfolding setPendingCallback_def GCAddRoot_def GCRemoveRoot_def Let_def
  by (cases "pendingCb interp"; cases cb) auto

lemma cstr_story: "cstr ''story'' = ''story''" "take (strlen ''story'') ''story'' = ''story''"
  by (simp_all add: cstr_def strlen_def NUL_def)

text \<open>The two example states are what the bridge reaches from its initial state.\<close>

lemma parse_story:
  "Loreline_parse choice_engine 0 (Some ''story'') None None None bridge0
     = Some (Inr (Some 0, parsed))"
  by (simp add: Loreline_parse_def linc_Loreline_scheduleSync_def returning_def handle_of_def
      run_task_first engine_do_def choice_engine_def linc_toHxString_def cstr_story
      IsNull_def GetPtr_def new_Script_def Script_set_def GCAddRoot_def Let_def
      parsed_def bridge0_def)

lemma play_story:
  "Loreline_play choice_engine 0 (Some 0) None (Some 7) None None None None parsed
     = Inr (Some 1, choice_pending)"
  by (simp add: Loreline_play_def new_Interpreter_def translations_obj_def Dynamic_def
      linc_Loreline_schedule_def run_task_home engine_do_def choice_engine_def
      linc_toHxString_def hx_Closure_choice_def linc_ensureInterpHandle_def Interpreter_set_def
      linc_buildChoiceOptions_def linc_buildTextTags_def linc_hxToString_def two_options_def
      setPendingCallback_def linc_Loreline_dispatchOut_def GCAddRoot_def GCRemoveRoot_def
      GetPtr_def Let_def strlen_def NUL_def
      choice_pending_def choice_options_def parsed_def bridge0_def insert_commute)

lemma Script_set_pending: "Script_set h ob s = Inr s1 \<Longrightarrow> pending_ok s \<Longrightarrow> pending_ok s1"
  by (auto simp: pending_ok_def Script_set_def GCAddRoot_def Let_def split: option.splits if_splits)

lemma delete_Script_pending: "delete_Script h s = Inr s1 \<Longrightarrow> pending_ok s \<Longrightarrow> pending_ok s1"
  by (auto simp: pending_ok_def delete_Script_def GCRemoveRoot_def Let_def
      split: option.splits if_splits)

lemma new_Script_pending: "new_Script s = (h, s1) \<Longrightarrow> pending_ok s \<Longrightarrow> pending_ok s1"
  by (auto simp: pending_ok_def new_Script_def less_Suc_eq)

lemma Translations_set_pending:
  "Translations_set h ob s = Inr s1 \<Longrightarrow> pending_ok s \<Longrightarrow> pending_ok s1"
  by (auto simp: pending_ok_def Translations_set_def GCAddRoot_def Let_def
      split: option.splits if_splits)

lemma delete_Translations_pending:
  "delete_Translations h s = Inr s1 \<Longrightarrow> pending_ok s \<Longrightarrow> pending_ok s1"
  by (auto simp: pending_ok_def delete_Translations_def GCRemoveRoot_def Let_def
      split: option.splits if_splits)

lemma new_Translations_pending:
  "new_Translations s = (h, s1) \<Longrightarrow> pending_ok s \<Longrightarrow> pending_ok s1"
  by (auto simp: pending_ok_def new_Translations_def less_Suc_eq)

lemma Interpreter_set_pending:
  "Interpreter_set h ob s = Inr s1 \<Longrightarrow> pending_ok s \<Longrightarrow> pending_ok s1"
  by (auto simp: pending_ok_def Interpreter_set_def GCAddRoot_def Let_def
      split: option.splits if_splits)

lemma setPendingCallback_pending:
  "setPendingCallback h cb s = Inr s1 \<Longrightarrow> pending_ok s \<Longrightarrow> pending_ok s1"
  by (auto simp: pending_ok_def setPendingCallback_def GCAddRoot_def GCRemoveRoot_def Let_def
      split: option.splits if_splits)

lemma delete_Interpreter_pending:
  "delete_Interpreter h s = Inr s1 \<Longrightarrow> pending_ok s \<Longrightarrow> pending_ok s1"
  by (auto simp: pending_ok_def delete_Interpreter_def GCRemoveRoot_def Let_def
      split: option.splits if_splits)

lemma ensureHaxeThread_pending:
  "linc_Loreline_ensureHaxeThread c s = Inr s1 \<Longrightarrow> pending_ok s \<Longrightarrow> pending_ok s1"
  by (auto simp: pending_ok_def linc_Loreline_ensureHaxeThread_def Let_def split: if_splits)

lemma run_func_pending: "run_func c f s = Inr s1 \<Longrightarrow> pending_ok s \<Longrightarrow> pending_ok s1"
  by (cases f) (auto simp: pending_ok_def Let_def split: option.splits)

lemma dispatchOut_pending:
  "linc_Loreline_dispatchOut run_func c f s = Inr s1 \<Longrightarrow> pending_ok s \<Longrightarrow> pending_ok s1"
  by (auto simp: linc_Loreline_dispatchOut_def add_def
      dest: run_func_pending split: if_splits)
     (simp add: pending_ok_def)

lemma ensureInterpHandle_pending:
  "linc_ensureInterpHandle h x s = Inr s1 \<Longrightarrow> pending_ok s \<Longrightarrow> pending_ok s1"
  by (auto simp: linc_ensureInterpHandle_def
      dest: Interpreter_set_pending split: option.splits if_splits)

lemma fire_pending: "fire c ev s = Inr s1 \<Longrightarrow> pending_ok s \<Longrightarrow> pending_ok s1"
proof (cases ev)
  case (Fire_dialogue h a b d e f)
  assume "fire c ev s = Inr s1" and "pending_ok s"
  then show ?thesis
    unfolding Fire_dialogue fire.simps hx_Closure_dialogue_def
    by (auto simp: Let_def split: sum.splits prod.splits
        dest!: ensureInterpHandle_pending setPendingCallback_pending dispatchOut_pending)
next
  case (Fire_choice h a b d)
  assume "fire c ev s = Inr s1" and "pending_ok s"
  then show ?thesis
    unfolding Fire_choice fire.simps hx_Closure_choice_def
    by (auto simp: Let_def split: sum.splits prod.splits
        dest!: ensureInterpHandle_pending setPendingCallback_pending dispatchOut_pending)
next
  case (Fire_finish h a)
  assume "fire c ev s = Inr s1" and "pending_ok s"
  then show ?thesis
    unfolding Fire_finish fire.simps hx_Closure_finish_def
    by (auto simp: Let_def split: sum.splits prod.splits
        dest!: ensureInterpHandle_pending dispatchOut_pending)
qed

lemma fire_all_pending: "fire_all c evs s = Inr s1 \<Longrightarrow> pending_ok s \<Longrightarrow> pending_ok s1"
proof (induction evs arbitrary: s)
  case Nil
  then show ?case by simp
next
  case (Cons ev evs)
  then show ?case
    by (auto split: sum.splits dest: fire_pending)
qed

lemma trace_pending: "pending_ok (s\<lparr>engine_trace := t\<rparr>) = pending_ok s"
  by (simp add: pending_ok_def)

lemma result_pending: "pending_ok (s\<lparr>result := r\<rparr>) = pending_ok s"
  by (simp add: pending_ok_def)

lemma thread_pending: "pending_ok (s\<lparr>thread := th\<rparr>) = pending_ok s"
  by (simp add: pending_ok_def)

lemma engine_do_pending:
  "engine_do eng c call s = Inr (r, s1) \<Longrightarrow> pending_ok s \<Longrightarrow> pending_ok s1"
  by (auto simp: engine_do_def Let_def split: sum.splits
      dest!: fire_all_pending simp: trace_pending)

lemma engine_call_uncaught_pending:
  "engine_call_uncaught eng c call s = Inr (v, s1) \<Longrightarrow> pending_ok s \<Longrightarrow> pending_ok s1"
  by (auto simp: engine_call_uncaught_def split: sum.splits outcome.splits
      dest: engine_do_pending)


lemma Script_set_result_pending:
  "Script_set h ob (s\<lparr>result := r\<rparr>) = Inr s1 \<Longrightarrow> pending_ok s \<Longrightarrow> pending_ok s1"
  using Script_set_pending [of h ob "s\<lparr>result := r\<rparr>" s1] by (simp add: result_pending)

lemma Translations_set_result_pending:
  "Translations_set h ob (s\<lparr>result := r\<rparr>) = Inr s1 \<Longrightarrow> pending_ok s \<Longrightarrow> pending_ok s1"
  using Translations_set_pending [of h ob "s\<lparr>result := r\<rparr>" s1] by (simp add: result_pending)

lemma task_body_pending: "task_body eng c task s = Inr s1 \<Longrightarrow> pending_ok s \<Longrightarrow> pending_ok s1"
proof (cases task)
  case (T_parse a b d e)
  assume "task_body eng c task s = Inr s1" and "pending_ok s"
  then show ?thesis
    unfolding T_parse task_body.simps Let_def
    by (auto split: sum.splits prod.splits outcome.splits if_splits
        dest!: engine_do_pending new_Script_pending
        dest: Script_set_result_pending)
next
  case (T_extractTranslations h)
  assume "task_body eng c task s = Inr s1" and "pending_ok s"
  then show ?thesis
    unfolding T_extractTranslations task_body.simps
    by (auto split: sum.splits prod.splits option.splits if_splits
        dest!: engine_call_uncaught_pending new_Translations_pending
        dest: Translations_set_result_pending)
next
  case (T_save h)
  assume "task_body eng c task s = Inr s1" and "pending_ok s"
  then show ?thesis
    unfolding T_save task_body.simps
    by (auto split: sum.splits prod.splits option.splits
        dest!: engine_call_uncaught_pending simp: result_pending)
next
  case (T_restore h x)
  assume "task_body eng c task s = Inr s1" and "pending_ok s"
  then show ?thesis
    unfolding T_restore task_body.simps
    by (auto split: sum.splits prod.splits option.splits
        dest!: engine_call_uncaught_pending)
next
  case (T_resume h a b d e)
  assume "task_body eng c task s = Inr s1" and "pending_ok s"
  then show ?thesis
    unfolding T_resume task_body.simps
    by (auto split: sum.splits prod.splits outcome.splits
        dest!: engine_call_uncaught_pending engine_do_pending
        dest: Interpreter_set_pending)
qed (auto simp: result_pending split: sum.splits prod.splits outcome.splits option.splits
      dest!: engine_call_uncaught_pending engine_do_pending
      dest: Interpreter_set_pending delete_Script_pending delete_Interpreter_pending
        delete_Translations_pending)

lemma run_task_pending: "run_task eng c task s = Inr s1 \<Longrightarrow> pending_ok s \<Longrightarrow> pending_ok s1"
  by (auto simp: run_task_def split: sum.splits
      dest!: ensureHaxeThread_pending dest: task_body_pending)

lemma run_queued_pending:
  "run_queued (run_task eng) w q s = Inr s1 \<Longrightarrow> pending_ok s \<Longrightarrow> pending_ok s1"
  by (cases q) (auto split: sum.splits dest!: run_task_pending simp: pending_ok_def)

lemma drain_pending:
  "drain (run_task eng) th qs s = Inr s1 \<Longrightarrow> pending_ok s \<Longrightarrow> pending_ok s1"
proof (induction qs arbitrary: s)
  case Nil
  then show ?case by simp
next
  case (Cons q qs)
  from Cons.prems(1) obtain s2
    where q: "run_queued (run_task eng) (workerThread th) q
                (s\<lparr>thread := Some (th\<lparr>taskQueue := qs\<rparr>)\<rparr>) = Inr s2"
      and rest: "drain (run_task eng) th qs s2 = Inr s1"
    by (auto split: sum.splits)
  have "pending_ok s2"
    using run_queued_pending [OF q] Cons.prems(2) by (simp add: thread_pending)
  then show ?case
    by (rule Cons.IH [OF rest])
qed

lemma schedule_pending:
  "linc_Loreline_schedule (run_task eng) caller task s = Inr s1 \<Longrightarrow> pending_ok s \<Longrightarrow>
   pending_ok s1"
  by (auto simp: linc_Loreline_schedule_def thread_pending split: if_splits
      dest: run_task_pending)

lemma scheduleSync_pending:
  assumes "linc_Loreline_scheduleSync (run_task eng) caller task s = Some (Inr s1)"
    and "plain_queue s" and "pending_ok s"
  shows "pending_ok s1"
proof (cases "useInternalThread s \<and> thread s \<noteq> None")
  case False
  then have "run_task eng caller task s = Inr s1"
    using assms(1) by (auto simp: linc_Loreline_scheduleSync_def)
  then show ?thesis
    using assms(3) by (rule run_task_pending)
next
  case True
  then obtain th where th: "thread s = Some th" by auto
  have ne: "caller \<noteq> workerThread th"
    using assms(1) True th
    by (auto simp: linc_Loreline_scheduleSync_def Thread_scheduleSync_def Let_def split: if_splits)
  have d: "drain (run_task eng) th (taskQueue th @ [Wrapped task (next_sync s)])
             (s\<lparr>next_sync := Suc (next_sync s), completed := completed s - {next_sync s}\<rparr>)
           = Inr s1"
    using scheduleSync_result [OF run_task_keeps_scheduler assms(2) _ th ne, where task = task]
      True assms(1)
    by simp
  show ?thesis
    using drain_pending [OF d] assms(3) by (simp add: pending_ok_def)
qed

lemma sync_call_pending:
  assumes "returning f (linc_Loreline_scheduleSync (run_task eng) caller task
             (s\<lparr>result := x\<rparr>)) = Some (Inr (r, s1))"
    and "plain_queue s" and "pending_ok s"
  shows "pending_ok s1"
proof -
  have p: "plain_queue (s\<lparr>result := x\<rparr>)"
    using assms(2) by (simp add: plain_queue_def)
  have q: "pending_ok (s\<lparr>result := x\<rparr>)"
    using assms(3) by (simp add: result_pending)
  from assms(1) have "linc_Loreline_scheduleSync (run_task eng) caller task (s\<lparr>result := x\<rparr>)
      = Some (Inr s1)"
    by (auto simp: returning_def split: option.splits sum.splits)
  then show ?thesis using p q by (rule scheduleSync_pending)
qed

lemma turn_pending:
  "threadLoop_turn (run_task eng) s = Ran (Inr s1) \<Longrightarrow> pending_ok s \<Longrightarrow> pending_ok s1"
  by (auto simp: threadLoop_turn_def split: option.splits if_splits
      dest!: run_queued_pending simp: thread_pending)

lemma run_saved_pending:
  "run_saved run_func caller fs s = Inr s1 \<Longrightarrow> pending_ok s \<Longrightarrow> pending_ok s1"
proof (induction fs arbitrary: s)
  case Nil
  then show ?case by simp
next
  case (Cons f fs)
  then show ?case
    by (auto split: sum.splits dest: run_func_pending)
qed

lemma flush_pending: "flush run_func caller s = Inr s1 \<Longrightarrow> pending_ok s \<Longrightarrow> pending_ok s1"
  by (auto simp: flush_def Let_def split: if_splits dest!: run_saved_pending)
     (simp add: pending_ok_def)

lemma advance_pending:
  "linc_advance eng caller s = Inr s1 \<Longrightarrow> pending_ok s \<Longrightarrow> pending_ok s1"
  by (auto simp: linc_advance_def split: option.splits sum.splits
      dest!: setPendingCallback_pending dest: schedule_pending)

lemma select_pending:
  "linc_select eng caller i s = Inr s1 \<Longrightarrow> pending_ok s \<Longrightarrow> pending_ok s1"
  by (auto simp: linc_select_def split: option.splits sum.splits
      dest!: setPendingCallback_pending dest: schedule_pending)

lemma new_session_pending:
  assumes "pending_ok s"
  shows "pending_ok
           (s\<lparr>next_handle := Suc (next_handle s),
               interpreters := (interpreters s)(next_handle s \<mapsto>
                  \<lparr>obj = None, pendingCb = None, dialogueHandler = d, choiceHandler = c,
                   finishHandler = f, userData = u\<rparr>)\<rparr>)"
  using assms by (auto simp: pending_ok_def less_Suc_eq)

lemma play_pending:
  assumes "Loreline_play eng caller script onDialogue onChoice onFinish beatName tr ud s
             = Inr (r, s1)"
    and "pending_ok s"
  shows "pending_ok s1"
proof (cases script)
  case None
  then show ?thesis using assms by (simp add: Loreline_play_def)
next
  case (Some sc)
  let ?s2 = "s\<lparr>next_handle := Suc (next_handle s),
               interpreters := (interpreters s)(next_handle s \<mapsto>
                  \<lparr>obj = None, pendingCb = None, dialogueHandler = onDialogue,
                   choiceHandler = onChoice, finishHandler = onFinish, userData = ud\<rparr>)\<rparr>"
  have ok: "pending_ok ?s2"
    by (rule new_session_pending [OF assms(2)])
  from assms(1) obtain task where "linc_Loreline_schedule (run_task eng) caller task ?s2 = Inr s1"
    unfolding Loreline_play_def Some new_Interpreter_def
    by (auto simp: Let_def split: option.splits sum.splits)
  then show ?thesis
    using ok by (rule schedule_pending)
qed

lemma resume_pending:
  assumes "Loreline_resume eng caller script onDialogue onChoice onFinish saveData beatName
             tr ud s = Inr (r, s1)"
    and "pending_ok s"
  shows "pending_ok s1"
proof (cases "script = None \<or> saveData = None")
  case True
  then show ?thesis using assms by (auto simp: Loreline_resume_def split: option.splits)
next
  case False
  then obtain sc where sc: "script = Some sc" and sd: "saveData \<noteq> None" by auto
  let ?s2 = "s\<lparr>next_handle := Suc (next_handle s),
               interpreters := (interpreters s)(next_handle s \<mapsto>
                  \<lparr>obj = None, pendingCb = None, dialogueHandler = onDialogue,
                   choiceHandler = onChoice, finishHandler = onFinish, userData = ud\<rparr>)\<rparr>"
  have ok: "pending_ok ?s2"
    by (rule new_session_pending [OF assms(2)])
  from assms(1) obtain task where "linc_Loreline_schedule (run_task eng) caller task ?s2 = Inr s1"
    unfolding Loreline_resume_def sc new_Interpreter_def using sd
    by (auto simp: Let_def split: option.splits sum.splits)
  then show ?thesis
    using ok by (rule schedule_pending)
qed

lemma dispose_pending:
  assumes "Loreline_dispose eng caller s = Some (Inr s1)" and "pending_ok s"
  shows "pending_ok s1"
proof -
  from assms(1) obtain s2
    where pushed: "linc_Loreline_schedule (run_task eng) caller T_dispose s = Inr s2"
    by (auto simp: Loreline_dispose_def split: sum.splits)
  have ok2: "pending_ok s2"
    using pushed assms(2) by (rule schedule_pending)
  show ?thesis
  proof (cases "thread s2")
    case None
    then show ?thesis
      using assms(1) pushed ok2 by (simp add: Loreline_dispose_def)
  next
    case (Some th)
    let ?d = "drain (run_task eng) (th\<lparr>stopFlag := True\<rparr>) (taskQueue th)
                (s2\<lparr>thread := Some (th\<lparr>stopFlag := True\<rparr>)\<rparr>)"
    from assms(1) obtain s3 where d: "?d = Inr s3"
      and s1: "s1 = s3\<lparr>live_threads := live_threads s3 - {workerThread th}, thread := None,
                       useInternalThread := False\<rparr>"
      unfolding Loreline_dispose_def pushed
      using Thread_delete_drains [OF run_task_keeps_scheduler Some] Some
      by (auto split: sum.splits)
    have "pending_ok s3"
      using drain_pending [OF d] ok2 by (simp add: thread_pending)
    then show ?thesis
      unfolding s1 by (simp add: pending_ok_def)
  qed
qed

lemma createThread_pending: "pending_ok s \<Longrightarrow> pending_ok (Loreline_createThread w s)"
  by (cases "useInternalThread s")
     (simp_all add: createThread_active createThread_fresh pending_ok_def)

lemma reachable_pending_ok: "reachable eng s \<Longrightarrow> pending_ok s"
proof (induction rule: reachable.induct)
  case initial
  show ?case by (simp add: pending_ok_def bridge0_def)
next
  case (createThread s w)
  then show ?case by (simp add: createThread_pending)
next
  case (init s caller s1)
  then show ?case
    by (auto simp: Loreline_init_def dest: scheduleSync_pending reachable_plain_queue)
next
  case (dispose s caller s1)
  then show ?case
    by (auto dest: dispose_pending)
next
  case (gc s caller s1)
  then show ?case
    by (auto simp: Loreline_gc_def dest: schedule_pending)
next
  case (parse s caller input filePath fileHandler fileHandlerData r s1)
  then show ?case
    by (auto simp: Loreline_parse_def dest: sync_call_pending reachable_plain_queue)
next
  case (extractTranslations s caller script r s1)
  then show ?case
    by (cases script)
       (auto simp: Loreline_extractTranslations_def
         dest: sync_call_pending reachable_plain_queue)
next
  case (releaseTranslations s caller tr s1)
  then show ?case
    by (cases tr)
       (auto simp: Loreline_releaseTranslations_def dest: schedule_pending)
next
  case (play s caller script onDialogue onChoice onFinish beatName tr ud r s1)
  then show ?case
    by (auto dest: play_pending)
next
  case (resume s caller script onDialogue onChoice onFinish saveData beatName tr ud r s1)
  then show ?case
    by (auto dest: resume_pending)
next
  case (start s caller interp beatName s1)
  then show ?case
    by (cases interp)
       (auto simp: Loreline_start_def dest: schedule_pending)
next
  case (save s caller interp str s1)
  then show ?case
    by (cases interp)
       (auto simp: Loreline_save_def dest: sync_call_pending reachable_plain_queue)
next
  case (restore s caller interp saveData s1)
  then show ?case
    by (cases interp)
       (auto simp: Loreline_restore_def split: if_splits dest: schedule_pending)
next
  case (getCharacterField s caller interp character field v s1)
  then show ?case
    by (cases interp; cases character; cases field)
       (auto simp: Loreline_getCharacterField_def
         dest: sync_call_pending reachable_plain_queue)
next
  case (setCharacterField s caller interp character field v s1)
  then show ?case
    by (cases interp; cases character; cases field)
       (auto simp: Loreline_setCharacterField_def dest: schedule_pending)
next
  case (printScript s caller script str s1)
  then show ?case
    by (cases script)
       (auto simp: Loreline_printScript_def dest: sync_call_pending reachable_plain_queue)
next
  case (releaseScript s caller script s1)
  then show ?case
    by (cases script)
       (auto simp: Loreline_releaseScript_def dest: schedule_pending)
next
  case (releaseInterpreter s caller interp s1)
  then show ?case
    by (cases interp)
       (auto simp: Loreline_releaseInterpreter_def dest: schedule_pending)
next
  case (advance s caller s1)
  then show ?case
    by (auto dest: advance_pending)
next
  case (select s caller i s1)
  then show ?case
    by (auto dest: select_pending)
next
  case (flush s caller s1)
  then show ?case
    by (auto dest: flush_pending)
next
  case (worker s s1)
  then show ?case
    by (auto dest: turn_pending)
qed

text \<open>
  A session has one field for its pending continuation. Setting a new one overwrites it,
  takes the root of the field off if the field held a continuation and puts it back if the
  new value is one: afterwards the session keeps alive exactly the new continuation, or
  none. In every state the bridge reaches, what a live session keeps alive is what its
  field holds, and every root of such a field belongs to a live session whose field holds
  a continuation. \<^verbatim>\<open>advance\<close> and \<^verbatim>\<open>select\<close>, called when no session has been
  dispatched yet or when the dispatched session is alive and has nothing pending, return
  with the whole state as it was: no engine call, no handler call. With a worker in use,
  \<^verbatim>\<open>advance\<close> takes the pending continuation, queues its run, and a second
  \<^verbatim>\<open>advance\<close> is such a call that changes nothing.
\<close>

lemma single_pending_continuation:
  assumes "interpreters s h = Some interp"
  shows "setPendingCallback h cb s =
           Inr (s\<lparr>interpreters := (interpreters s)(h \<mapsto> interp\<lparr>pendingCb := cb\<rparr>),
                  roots := (if cb \<noteq> None then insert (Interpreter_pendingCb h) (roots s)
                            else if pendingCb interp \<noteq> None
                              then roots s - {Interpreter_pendingCb h}
                            else roots s)\<rparr>)
       \<and> (\<forall>s1. setPendingCallback h cb s = Inr s1 \<longrightarrow> pending_pin h s1 = cb)
       \<and> (reachable eng b \<and> interpreters b g = Some sess \<longrightarrow>
            pending_pin g b = pendingCb sess)
       \<and> (reachable eng b \<and> Interpreter_pendingCb g \<in> roots b \<longrightarrow>
            (\<exists>live k. interpreters b g = Some live \<and> pendingCb live = Some k))
       \<and> (s_dispatchInterp s = Some h \<and> pendingCb interp = None \<longrightarrow>
            linc_advance eng caller s = Inr s \<and> linc_select eng caller i s = Inr s)
       \<and> (s_dispatchInterp s = None \<longrightarrow>
            linc_advance eng caller s = Inr s \<and> linc_select eng caller i s = Inr s)
       \<and> (s_dispatchInterp s = Some h \<and> pendingCb interp = Some k
            \<and> useInternalThread s \<and> thread s = Some th \<longrightarrow>
            linc_advance eng caller s =
              Inr (s\<lparr>interpreters := (interpreters s)(h \<mapsto> interp\<lparr>pendingCb := None\<rparr>),
                     roots := roots s - {Interpreter_pendingCb h},
                     thread := Some (th\<lparr>taskQueue := taskQueue th @ [Plain (T_advance k)]\<rparr>)\<rparr>)
          \<and> linc_advance eng caller
               (s\<lparr>interpreters := (interpreters s)(h \<mapsto> interp\<lparr>pendingCb := None\<rparr>),
                  roots := roots s - {Interpreter_pendingCb h},
                  thread := Some (th\<lparr>taskQueue := taskQueue th @ [Plain (T_advance k)]\<rparr>)\<rparr>)
              = Inr (s\<lparr>interpreters := (interpreters s)(h \<mapsto> interp\<lparr>pendingCb := None\<rparr>),
                       roots := roots s - {Interpreter_pendingCb h},
                       thread :=
                         Some (th\<lparr>taskQueue := taskQueue th @ [Plain (T_advance k)]\<rparr>)\<rparr>))"
proof -
  note set = setPendingCallback_live [OF assms]
  have pin: "pending_pin h s1 = cb" if "setPendingCallback h cb s = Inr s1" for s1
    using that unfolding set [of cb] by (auto simp: pending_pin_def)
  have held: "pending_pin g b = pendingCb sess"
    if "reachable eng b \<and> interpreters b g = Some sess"
    using that reachable_pending_ok [of eng b]
    by (auto simp: pending_ok_def pending_pin_def)
  have rooted: "\<exists>live k. interpreters b g = Some live \<and> pendingCb live = Some k"
    if "reachable eng b \<and> Interpreter_pendingCb g \<in> roots b"
    using that reachable_pending_ok [of eng b]
    by (auto simp: pending_ok_def)
  have idle: "linc_advance eng caller s = Inr s \<and> linc_select eng caller i s = Inr s"
    if "s_dispatchInterp s = Some h \<and> pendingCb interp = None"
    using that assms by (simp add: linc_advance_def linc_select_def)
  have none: "linc_advance eng caller s = Inr s \<and> linc_select eng caller i s = Inr s"
    if "s_dispatchInterp s = None"
    using that by (simp add: linc_advance_def linc_select_def)
  let ?s1 = "s\<lparr>interpreters := (interpreters s)(h \<mapsto> interp\<lparr>pendingCb := None\<rparr>),
                roots := roots s - {Interpreter_pendingCb h}\<rparr>"
  have first: "linc_advance eng caller s =
              Inr (?s1\<lparr>thread := Some (th\<lparr>taskQueue := taskQueue th @ [Plain (T_advance k)]\<rparr>)\<rparr>)"
    if "s_dispatchInterp s = Some h \<and> pendingCb interp = Some k
            \<and> useInternalThread s \<and> thread s = Some th"
    using that assms set [of None]
    by (simp add: linc_advance_def linc_Loreline_schedule_def Thread_schedule_def)
  have second: "linc_advance eng caller
                  (?s1\<lparr>thread := Some (th\<lparr>taskQueue := taskQueue th @ [Plain (T_advance k)]\<rparr>)\<rparr>)
              = Inr (?s1\<lparr>thread := Some (th\<lparr>taskQueue := taskQueue th @ [Plain (T_advance k)]\<rparr>)\<rparr>)"
    if "s_dispatchInterp s = Some h \<and> pendingCb interp = Some k
            \<and> useInternalThread s \<and> thread s = Some th"
    using that by (simp add: linc_advance_def)
  show ?thesis
    using set pin held rooted idle none first second by simp
qed

text \<open>
  On the session that waits with continuation 60: setting continuation 61 leaves 61 in the
  field and the root in place; \<^verbatim>\<open>advance\<close> with no dispatched session and \<^verbatim>\<open>select\<close>
  with nothing pending return the state they were given. The bridge reaches
  \<open>choice_pending\<close>, where session 1 keeps continuation 60 alive.
\<close>

lemma single_pending_continuation_example:
  "setPendingCallback 1 (Some 61) pending_state =
     Inr (pending_state\<lparr>interpreters :=
            [1 \<mapsto> \<lparr>obj = Some 50, pendingCb = Some 61, dialogueHandler = Some 7,
                    choiceHandler = None, finishHandler = None, userData = None\<rparr>]\<rparr>)
   \<and> linc_advance quiet_engine 0 (pending_state\<lparr>s_dispatchInterp := None\<rparr>) =
       Inr (pending_state\<lparr>s_dispatchInterp := None\<rparr>)
   \<and> linc_select quiet_engine 0 3
         (pending_state\<lparr>interpreters :=
            [1 \<mapsto> \<lparr>obj = Some 50, pendingCb = None, dialogueHandler = Some 7,
                    choiceHandler = None, finishHandler = None, userData = None\<rparr>],
            roots := {Interpreter_obj 1}\<rparr>) =
       Inr (pending_state\<lparr>interpreters :=
            [1 \<mapsto> \<lparr>obj = Some 50, pendingCb = None, dialogueHandler = Some 7,
                    choiceHandler = None, finishHandler = None, userData = None\<rparr>],
            roots := {Interpreter_obj 1}\<rparr>)
   \<and> reachable choice_engine choice_pending
   \<and> pending_pin 1 choice_pending = Some 60"
proof -
  let ?i = "\<lparr>obj = Some 50, pendingCb = Some 60, dialogueHandler = Some 7,
             choiceHandler = None, finishHandler = None, userData = None\<rparr>"
  let ?j = "\<lparr>obj = Some 50, pendingCb = None, dialogueHandler = Some 7,
             choiceHandler = None, finishHandler = None, userData = None\<rparr>"
  let ?c = "\<lparr>obj = Some 50, pendingCb = Some 60, dialogueHandler = None,
             choiceHandler = Some 7, finishHandler = None, userData = None\<rparr>"
  let ?idle = "pending_state\<lparr>interpreters := [1 \<mapsto> ?j], roots := {Interpreter_obj 1}\<rparr>"
  have live: "interpreters pending_state 1 = Some ?i"
    by (simp add: pending_state_def)
  have live0: "interpreters (pending_state\<lparr>s_dispatchInterp := None\<rparr>) 1 = Some ?i"
    by (simp add: pending_state_def)
  have live1: "interpreters ?idle 1 = Some ?j"
    by simp
  have live2: "interpreters choice_pending 1 = Some ?c"
    by (simp add: choice_pending_def)
  have a: "setPendingCallback 1 (Some 61) pending_state =
     Inr (pending_state\<lparr>interpreters := [1 \<mapsto> ?i\<lparr>pendingCb := Some 61\<rparr>]\<rparr>)"
    using single_pending_continuation [OF live, where cb = "Some 61", THEN conjunct1]
    by (simp add: pending_state_def insert_absorb)
  have b: "linc_advance quiet_engine 0 (pending_state\<lparr>s_dispatchInterp := None\<rparr>) =
       Inr (pending_state\<lparr>s_dispatchInterp := None\<rparr>)"
    using single_pending_continuation [OF live0, where eng = quiet_engine and caller = 0,
        THEN conjunct2, THEN conjunct2, THEN conjunct2, THEN conjunct2, THEN conjunct2,
        THEN conjunct1]
    by simp
  have c: "linc_select quiet_engine 0 3 ?idle = Inr ?idle"
    using single_pending_continuation [OF live1, where eng = quiet_engine and caller = 0
        and i = 3,
        THEN conjunct2, THEN conjunct2, THEN conjunct2, THEN conjunct2, THEN conjunct1]
    by (simp add: pending_state_def)
  have r1: "reachable choice_engine parsed"
    by (rule reachable.parse [OF reachable.initial parse_story])
  have r2: "reachable choice_engine choice_pending"
    by (rule reachable.play [OF r1 play_story])
  have d: "pending_pin 1 choice_pending = Some 60"
    using single_pending_continuation [OF live, where eng = choice_engine
        and b = choice_pending and g = 1 and sess = ?c,
        THEN conjunct2, THEN conjunct2, THEN conjunct1] r2 live2
    by simp
  show ?thesis
    using a b c r2 d by simp
qed

lemma select_chosen: "linc_select choice_engine 0 0 choice_pending = Inr chosen"
proof -
  have r: "roots choice_pending - {Interpreter_pendingCb 1} = {Script_obj 0, Interpreter_obj 1}"
    by (auto simp: choice_pending_def)
  show ?thesis
    using r
    by (simp add: linc_select_def setPendingCallback_def GCRemoveRoot_def Let_def
        linc_Loreline_schedule_def run_task_home engine_call_uncaught_def engine_do_def
        choice_engine_def chosen_def choice_pending_def parsed_def bridge0_def)
qed

lemma release_chosen:
  "Loreline_releaseInterpreter choice_engine 0 (Some 1) chosen = Inr released"
proof -
  have r: "roots chosen - {Interpreter_obj 1} = {Script_obj 0}"
    by (auto simp: chosen_def)
  show ?thesis
    using r
    by (simp add: Loreline_releaseInterpreter_def linc_Loreline_schedule_def run_task_home
        delete_Interpreter_def GCRemoveRoot_def Let_def
        released_def chosen_def choice_pending_def parsed_def bridge0_def)
qed

text \<open>
  Claim C1, where the code departs from it. \<^verbatim>\<open>advance\<close> and \<^verbatim>\<open>select\<close> act on
  \<^verbatim>\<open>s_dispatchInterp\<close>, the session of the last dispatched event, and test it with
  \<^verbatim>\<open>!h || !h->pendingCb\<close>. Nothing resets that pointer when the session is released. A
  script is parsed and played, the choice handler is called, and \<^verbatim>\<open>select(0)\<close> resumes
  the engine: nothing is pending now, and a further \<^verbatim>\<open>advance\<close> or \<^verbatim>\<open>select\<close>
  changes nothing, as the claim says. The session is then released. No session is left,
  no continuation is pending and no root of one is registered, but \<^verbatim>\<open>s_dispatchInterp\<close>
  still holds the released handle: \<^verbatim>\<open>advance\<close> and \<^verbatim>\<open>select\<close> read its
  \<^verbatim>\<open>pendingCb\<close> field, memory that has been freed.
\<close>

theorem C1_advance_after_release_dangles:
  "Loreline_parse choice_engine 0 (Some ''story'') None None None bridge0
     = Some (Inr (Some 0, parsed))
   \<and> Loreline_play choice_engine 0 (Some 0) None (Some 7) None None None None parsed
     = Inr (Some 1, choice_pending)
   \<and> linc_select choice_engine 0 0 choice_pending = Inr chosen
   \<and> linc_advance choice_engine 0 chosen = Inr chosen
   \<and> linc_select choice_engine 0 0 chosen = Inr chosen
   \<and> Loreline_releaseInterpreter choice_engine 0 (Some 1) chosen = Inr released
   \<and> interpreters released = Map.empty
   \<and> roots released = {Script_obj 0}
   \<and> s_dispatchInterp released = Some 1
   \<and> linc_advance choice_engine 0 released = Inl Dangling_handle
   \<and> linc_select choice_engine 0 0 released = Inl Dangling_handle"
proof -
  have idle: "linc_advance choice_engine 0 chosen = Inr chosen"
    "linc_select choice_engine 0 0 chosen = Inr chosen"
    by (simp_all add: linc_advance_def linc_select_def chosen_def choice_pending_def)
  have gone: "interpreters released = Map.empty" "roots released = {Script_obj 0}"
    "s_dispatchInterp released = Some 1"
    by (simp_all add: released_def chosen_def choice_pending_def)
  have dangling: "linc_advance choice_engine 0 released = Inl Dangling_handle"
    "linc_select choice_engine 0 0 released = Inl Dangling_handle"
    by (simp_all add: linc_advance_def linc_select_def gone)
  show ?thesis
    using parse_story play_story select_chosen idle release_chosen gone dangling by simp
qed

section \<open>Choosing an option\<close>

text \<open>
  Claim C5, as the code has it. \<^verbatim>\<open>select\<close> does not look at the index. When the
  dispatched session has a continuation pending, \<^verbatim>\<open>select(i)\<close> takes it and schedules
  its run with \<open>i\<close>, for every integer \<open>i\<close>: with a worker in use the run is queued, and
  inline, on the engine's thread, the engine is resumed with \<open>i\<close> at once (shown for an
  engine that answers without calling back). The number of options of the choice plays no
  part.
\<close>

theorem C5_select_passes_any_index_on:
  assumes "s_dispatchInterp s = Some h" and "interpreters s h = Some interp"
    and "pendingCb interp = Some cb"
  shows "linc_select eng caller i s =
           linc_Loreline_schedule (run_task eng) caller (T_select cb i)
             (s\<lparr>interpreters := (interpreters s)(h \<mapsto> interp\<lparr>pendingCb := None\<rparr>),
                roots := roots s - {Interpreter_pendingCb h}\<rparr>)
       \<and> (useInternalThread s \<and> thread s = Some th \<longrightarrow>
            linc_select eng caller i s =
              Inr (s\<lparr>interpreters := (interpreters s)(h \<mapsto> interp\<lparr>pendingCb := None\<rparr>),
                     roots := roots s - {Interpreter_pendingCb h},
                     thread := Some (th\<lparr>taskQueue := taskQueue th @ [Plain (T_select cb i)]\<rparr>)\<rparr>))
       \<and> (\<not> (useInternalThread s \<and> thread s \<noteq> None) \<and> didCallHaxeMain s
            \<and> haxeThreadId s = Some caller
            \<and> eng (engine_trace s) (Eng_run_index cb i) = Reply [] (Returns v) \<longrightarrow>
            linc_select eng caller i s =
              Inr (s\<lparr>interpreters := (interpreters s)(h \<mapsto> interp\<lparr>pendingCb := None\<rparr>),
                     roots := roots s - {Interpreter_pendingCb h},
                     engine_trace := engine_trace s @ [Eng_run_index cb i]\<rparr>))"
proof -
  let ?s1 = "s\<lparr>interpreters := (interpreters s)(h \<mapsto> interp\<lparr>pendingCb := None\<rparr>),
                roots := roots s - {Interpreter_pendingCb h}\<rparr>"
  have clear: "setPendingCallback h None s = Inr ?s1"
    using assms by (simp add: setPendingCallback_def GCRemoveRoot_def Let_def)
  have sel: "linc_select eng caller i s =
             linc_Loreline_schedule (run_task eng) caller (T_select cb i) ?s1"
    using assms clear by (simp add: linc_select_def)
  have queued: "linc_Loreline_schedule (run_task eng) caller (T_select cb i) ?s1 =
      Inr (?s1\<lparr>thread := Some (th\<lparr>taskQueue := taskQueue th @ [Plain (T_select cb i)]\<rparr>)\<rparr>)"
    if "useInternalThread s \<and> thread s = Some th"
    using that by (simp add: linc_Loreline_schedule_def Thread_schedule_def)
  have inline: "linc_Loreline_schedule (run_task eng) caller (T_select cb i) ?s1 =
      Inr (?s1\<lparr>engine_trace := engine_trace s @ [Eng_run_index cb i]\<rparr>)"
    if "\<not> (useInternalThread s \<and> thread s \<noteq> None) \<and> didCallHaxeMain s
            \<and> haxeThreadId s = Some caller
            \<and> eng (engine_trace s) (Eng_run_index cb i) = Reply [] (Returns v)"
    using that
    by (auto simp: linc_Loreline_schedule_def run_task_home engine_call_uncaught_def
        engine_do_def)
  show ?thesis
    using sel queued inline by simp
qed

text \<open>The theorem at work: after the choice between two options, \<^verbatim>\<open>select(1)\<close>.\<close>

theorem C5_select_passes_any_index_on_witness:
  "linc_select choice_engine 0 1 choice_pending =
     Inr (choice_pending
            \<lparr>interpreters := [1 \<mapsto> \<lparr>obj = Some 50, pendingCb = None, dialogueHandler = None,
                                    choiceHandler = Some 7, finishHandler = None,
                                    userData = None\<rparr>],
             roots := {Script_obj 0, Interpreter_obj 1},
             engine_trace := engine_trace choice_pending @ [Eng_run_index 60 1]\<rparr>)"
proof -
  let ?i = "\<lparr>obj = Some 50, pendingCb = Some 60, dialogueHandler = None,
             choiceHandler = Some 7, finishHandler = None, userData = None\<rparr>"
  have d: "s_dispatchInterp choice_pending = Some 1"
    by (simp add: choice_pending_def)
  have l: "interpreters choice_pending 1 = Some ?i"
    by (simp add: choice_pending_def)
  have p: "pendingCb ?i = Some 60" by simp
  have r: "roots choice_pending - {Interpreter_pendingCb 1} = {Script_obj 0, Interpreter_obj 1}"
    by (auto simp: choice_pending_def)
  show ?thesis
    using C5_select_passes_any_index_on [OF d l p, of choice_engine 0 1
        "\<lparr>workerThread = 1, taskQueue = [], stopFlag = False\<rparr>" HxNull,
        THEN conjunct2, THEN conjunct2] r
    by (simp add: choice_engine_def choice_pending_def parsed_def bridge0_def)
qed

text \<open>
  The claim as written has an index outside the options rejected. Here the choice handler
  has been called with two options; \<^verbatim>\<open>select(-1)\<close> and \<^verbatim>\<open>select(2)\<close> each take the
  pending continuation and resume the engine with that index.
\<close>

theorem C5_select_out_of_range_counterexample:
  "Loreline_play choice_engine 0 (Some 0) None (Some 7) None None None None parsed
     = Inr (Some 1, choice_pending)
   \<and> host_trace choice_pending = [Host_choice 7 1 (Some choice_options) 2 None]
   \<and> linc_select choice_engine 0 (- 1) choice_pending =
       Inr (choice_pending
              \<lparr>interpreters := [1 \<mapsto> \<lparr>obj = Some 50, pendingCb = None, dialogueHandler = None,
                                      choiceHandler = Some 7, finishHandler = None,
                                      userData = None\<rparr>],
               roots := {Script_obj 0, Interpreter_obj 1},
               engine_trace := engine_trace choice_pending @ [Eng_run_index 60 (- 1)]\<rparr>)
   \<and> linc_select choice_engine 0 2 choice_pending =
       Inr (choice_pending
              \<lparr>interpreters := [1 \<mapsto> \<lparr>obj = Some 50, pendingCb = None, dialogueHandler = None,
                                      choiceHandler = Some 7, finishHandler = None,
                                      userData = None\<rparr>],
               roots := {Script_obj 0, Interpreter_obj 1},
               engine_trace := engine_trace choice_pending @ [Eng_run_index 60 2]\<rparr>)"
proof -
  have r: "roots choice_pending - {Interpreter_pendingCb 1} = {Script_obj 0, Interpreter_obj 1}"
    by (auto simp: choice_pending_def)
  have sel: "linc_select choice_engine 0 i choice_pending =
       Inr (choice_pending
              \<lparr>interpreters := [1 \<mapsto> \<lparr>obj = Some 50, pendingCb = None, dialogueHandler = None,
                                      choiceHandler = Some 7, finishHandler = None,
                                      userData = None\<rparr>],
               roots := {Script_obj 0, Interpreter_obj 1},
               engine_trace := engine_trace choice_pending @ [Eng_run_index 60 i]\<rparr>)" for i
    using r
    by (simp add: linc_select_def setPendingCallback_def GCRemoveRoot_def Let_def
        linc_Loreline_schedule_def run_task_home engine_call_uncaught_def engine_do_def
        choice_engine_def choice_pending_def parsed_def bridge0_def)
  show ?thesis
    using play_story sel [of "- 1"] sel [of 2] by (simp add: choice_pending_def)
qed

section \<open>Null handles\<close>



section \<open>Exceptions of the engine\<close>

lemma cstr_small:
  "take (strlen ''{'') ''{'' = ''{''" "take (strlen ''{}'') ''{}'' = ''{}''"
  "take (strlen ''nowhere'') ''nowhere'' = ''nowhere''"
  "take (strlen ''stry'') ''stry'' = ''stry''"
  by (simp_all add: strlen_def NUL_def)

lemma playing_reached:
  "Loreline_parse throwing_engine 0 (Some ''story'') None None None bridge0
     = Some (Inr (Some 0, parsed))
   \<and> Loreline_play throwing_engine 0 (Some 0) None None None None None None parsed
     = Inr (Some 1, playing)"
  by (simp add: Loreline_parse_def linc_Loreline_scheduleSync_def returning_def handle_of_def
      run_task_first engine_do_def throwing_engine_def linc_toHxString_def cstr_story
      IsNull_def GetPtr_def new_Script_def Script_set_def GCAddRoot_def Let_def
      Loreline_play_def new_Interpreter_def translations_obj_def Dynamic_def
      linc_Loreline_schedule_def run_task_home Interpreter_set_def
      playing_def parsed_def bridge0_def insert_commute)

text \<open>
  Claim C2. \<^verbatim>\<open>Loreline_parse\<close>, \<^verbatim>\<open>Loreline_play\<close> and \<^verbatim>\<open>Loreline_resume\<close> wrap the
  engine's parse, play and resume in \<^verbatim>\<open>try\<close> and \<^verbatim>\<open>catch\<close>. \<^verbatim>\<open>Loreline_save\<close> and
  \<^verbatim>\<open>Loreline_restore\<close> have no \<^verbatim>\<open>try\<close>, and \<^verbatim>\<open>Loreline_resume\<close> parses the save
  text before its \<^verbatim>\<open>try\<close>. With a session playing on thread 0 and no worker: restoring
  or resuming from the text \<^verbatim>\<open>"{"\<close>, and saving, let the engine's exception through to
  the caller; a source that does not parse, a start beat that does not exist and save data
  the engine refuses are caught, and the call returns a null handle or a session that was
  not started.
\<close>

theorem C2_save_restore_let_engine_exceptions_through:
  "Loreline_restore throwing_engine 0 (Some 1) (Some ''{'') playing
     = Inl (Haxe_throw (HxString ''invalid json''))
   \<and> Loreline_save throwing_engine 0 (Some 1) playing
     = Some (Inl (Haxe_throw (HxString ''cannot save'')))
   \<and> Loreline_resume throwing_engine 0 (Some 0) None None None (Some ''{'') None None None playing
     = Inl (Haxe_throw (HxString ''invalid json''))
   \<and> Loreline_parse throwing_engine 0 (Some ''stry'') None None None playing
     = Some (Inr (None,
         playing\<lparr>result := Ret_handle None,
                 engine_trace := engine_trace playing @
                   [Eng_parse (HxString ''stry'') HxNull False]\<rparr>))
   \<and> Loreline_play throwing_engine 0 (Some 0) None None None (Some ''nowhere'') None None playing
     = Inr (Some 2,
         playing\<lparr>interpreters := (interpreters playing)(2 \<mapsto>
                   \<lparr>obj = None, pendingCb = None, dialogueHandler = None,
                    choiceHandler = None, finishHandler = None, userData = None\<rparr>),
                 next_handle := 3,
                 engine_trace := engine_trace playing @
                   [Eng_play (HxObject 40) 2 (HxString ''nowhere'') None]\<rparr>)
   \<and> Loreline_resume throwing_engine 0 (Some 0) None None None (Some ''{}'') None None None playing
     = Inr (Some 2,
         playing\<lparr>interpreters := (interpreters playing)(2 \<mapsto>
                   \<lparr>obj = None, pendingCb = None, dialogueHandler = None,
                    choiceHandler = None, finishHandler = None, userData = None\<rparr>),
                 next_handle := 3,
                 engine_trace := engine_trace playing @
                   [Eng_Json_parse (HxString ''{}''),
                    Eng_resume (HxObject 40) 2 (HxObject 70) HxNull None]\<rparr>)"
proof -
  have restore: "Loreline_restore throwing_engine 0 (Some 1) (Some ''{'') playing
     = Inl (Haxe_throw (HxString ''invalid json''))"
    by (simp add: Loreline_restore_def linc_Loreline_schedule_def run_task_home
        engine_call_uncaught_def engine_do_def throwing_engine_def linc_toHxString_def
        cstr_small Dynamic_def playing_def bridge0_def)
  have save: "Loreline_save throwing_engine 0 (Some 1) playing
     = Some (Inl (Haxe_throw (HxString ''cannot save'')))"
    by (simp add: Loreline_save_def linc_Loreline_scheduleSync_def returning_def run_task_home
        engine_call_uncaught_def engine_do_def throwing_engine_def Dynamic_def
        playing_def bridge0_def)
  have resume_json: "Loreline_resume throwing_engine 0 (Some 0) None None None (Some ''{'')
       None None None playing = Inl (Haxe_throw (HxString ''invalid json''))"
    by (simp add: Loreline_resume_def new_Interpreter_def translations_obj_def
        linc_Loreline_schedule_def run_task_home
        engine_call_uncaught_def engine_do_def throwing_engine_def linc_toHxString_def
        cstr_small Dynamic_def Let_def playing_def bridge0_def)
  have parse: "Loreline_parse throwing_engine 0 (Some ''stry'') None None None playing
     = Some (Inr (None,
         playing\<lparr>result := Ret_handle None,
                 engine_trace := engine_trace playing @
                   [Eng_parse (HxString ''stry'') HxNull False]\<rparr>))"
    by (simp add: Loreline_parse_def linc_Loreline_scheduleSync_def returning_def handle_of_def
        run_task_home engine_do_def throwing_engine_def linc_toHxString_def cstr_small
        Let_def playing_def bridge0_def)
  have play: "Loreline_play throwing_engine 0 (Some 0) None None None (Some ''nowhere'')
       None None playing
     = Inr (Some 2,
         playing\<lparr>interpreters := (interpreters playing)(2 \<mapsto>
                   \<lparr>obj = None, pendingCb = None, dialogueHandler = None,
                    choiceHandler = None, finishHandler = None, userData = None\<rparr>),
                 next_handle := 3,
                 engine_trace := engine_trace playing @
                   [Eng_play (HxObject 40) 2 (HxString ''nowhere'') None]\<rparr>)"
    by (simp add: Loreline_play_def new_Interpreter_def translations_obj_def
        linc_Loreline_schedule_def run_task_home engine_do_def throwing_engine_def
        linc_toHxString_def cstr_small Dynamic_def Let_def playing_def bridge0_def)
  have resume: "Loreline_resume throwing_engine 0 (Some 0) None None None (Some ''{}'')
       None None None playing
     = Inr (Some 2,
         playing\<lparr>interpreters := (interpreters playing)(2 \<mapsto>
                   \<lparr>obj = None, pendingCb = None, dialogueHandler = None,
                    choiceHandler = None, finishHandler = None, userData = None\<rparr>),
                 next_handle := 3,
                 engine_trace := engine_trace playing @
                   [Eng_Json_parse (HxString ''{}''),
                    Eng_resume (HxObject 40) 2 (HxObject 70) HxNull None]\<rparr>)"
    by (simp add: Loreline_resume_def new_Interpreter_def translations_obj_def
        linc_Loreline_schedule_def run_task_home
        engine_call_uncaught_def engine_do_def throwing_engine_def linc_toHxString_def
        cstr_small Dynamic_def Let_def playing_def bridge0_def)
  show ?thesis
    using restore save resume_json parse play resume by blast
qed

end
